theory Spec2Isabelle
  imports Complex_Main
begin

section \<open>The parallax controller of \<open>src/js/parallax.js\<close>\<close>

text \<open>
  The controller keeps, for every layer of the hero section, a position \<open>currentY\<close>, a
  target \<open>targetY\<close> and a \<open>velocity\<close>, and on every animation frame moves each
  position towards its target with a discrete spring (\<open>calculateSpring\<close>).

  Numbers. A JavaScript number is an IEEE-754 double. The spring is embedded twice.

  \<^item> In exact arithmetic (\<open>calculateSpring\<close>, \<open>applySpring\<close>, \<open>ticks\<close>, \<open>animate\<close>):
    the operations of the source on real numbers, without rounding and overflow. The one
    place where the code leaves the real numbers in exact arithmetic is the division by
    \<open>mass\<close>: with \<open>mass = 0\<close> JavaScript returns \<open>Infinity\<close> or \<open>NaN\<close>. The
    model returns \<open>None\<close> there (HOL's own \<open>x / 0 = 0\<close> would be wrong), and every
    function that stores such a result returns \<open>None\<close> too.

  \<^item> In doubles (\<open>calculateSpring_double\<close>, \<open>applySpring_double\<close>,
    \<open>ticks_double\<close>): the same operations, each one rounded to the nearest binary64
    number (\<open>fl\<close>), with overflow. What depends on rounding or on the range of doubles
    is stated there.
\<close>

subsection \<open>Data\<close>

text \<open>\<open>this.spring = { stiffness, damping, mass }\<close>\<close>

record spring =
  stiffness :: real
  damping :: real
  mass :: real

text \<open>The object \<open>{ position, velocity }\<close> that \<open>calculateSpring\<close> returns.\<close>

record spring_result =
  position :: real
  velocity :: real

text \<open>The per-layer object \<open>{ currentY, targetY, velocity, speed }\<close> of \<open>init\<close>.\<close>

record layer_state =
  currentY :: real
  targetY :: real
  velocity :: real
  speed :: real

text \<open>
  The controller. \<open>layerStates\<close> is a JavaScript \<open>Map\<close>: keys are unique and iteration
  follows insertion order, so it is an association list. The fields of the DOM handles,
  the unused scroll fields (\<open>currentScroll\<close>, \<open>targetScroll\<close>, \<open>velocity\<close>: written,
  never read) and \<open>rafId\<close> take no part in the computation and are left out.
\<close>

record 'layer controller =
  spring :: spring
  layerStates :: "('layer \<times> layer_state) list"

text \<open>
  What one frame reads from the browser: the hero's bounding rectangle (absent when the
  page has no \<open>.hero\<close> element) and \<open>window.innerHeight\<close>.
\<close>

record rect =
  rect_top :: real
  rect_height :: real

record window =
  heroRect :: "rect option"
  innerHeight :: real

subsection \<open>Construction\<close>

text \<open>The constants the constructor stores in \<open>this.spring\<close> (lines 13 to 17).\<close>

definition constructor_spring :: spring where
  "constructor_spring = \<lparr>stiffness = 8 / 100, damping = 85 / 100, mass = 1\<rparr>"

text \<open>
  The state object \<open>init\<close> creates for a layer (lines 37 to 42 and 47 to 52): at rest
  at 0 with target 0, with the layer's speed.
\<close>

definition newLayerState :: "real \<Rightarrow> layer_state" where
  "newLayerState s = \<lparr>currentY = 0, targetY = 0, velocity = 0, speed = s\<rparr>"

subsection \<open>The spring\<close>

text \<open>
  \<open>calculateSpring(current, target, velocity, dt = 1/60)\<close>, lines 82 to 100. The last
  argument is optional (\<open>None\<close>: omitted, as the one call site does).
\<close>

definition calculateSpring ::
    "spring \<Rightarrow> real \<Rightarrow> real \<Rightarrow> real \<Rightarrow> real option \<Rightarrow> spring_result option" where
  "calculateSpring this_spring = (\<lambda>current target velocity dt_arg.
     (let dt = (case dt_arg of None \<Rightarrow> 1 / 60 | Some d \<Rightarrow> d);
          stiffness = spring.stiffness this_spring;
          damping = spring.damping this_spring;
          mass = spring.mass this_spring;
          displacement = current - target;
          springForce = - stiffness * displacement;
          dampingForce = - damping * velocity
      in if mass = 0 then None
         else
           (let acceleration = (springForce + dampingForce) / mass;
                newVelocity = velocity + acceleration;
                newPosition = current + newVelocity
            in Some \<lparr>position = newPosition, spring_result.velocity = newVelocity\<rparr>)))"

text \<open>
  Lines 121 to 128 of the frame callback: the spring applied to one layer's state, the
  result stored back into \<open>currentY\<close> and \<open>velocity\<close>. The target is not touched.
\<close>

definition applySpring :: "spring \<Rightarrow> layer_state \<Rightarrow> layer_state option" where
  "applySpring this_spring state =
     (case calculateSpring this_spring (currentY state) (targetY state) (velocity state) None of
        None \<Rightarrow> None
      | Some springResult \<Rightarrow>
          Some (state\<lparr>currentY := position springResult,
                      velocity := spring_result.velocity springResult\<rparr>))"

text \<open>\<open>n\<close> frames of one layer whose target is held.\<close>

fun ticks :: "nat \<Rightarrow> spring \<Rightarrow> layer_state \<Rightarrow> layer_state option" where
  "ticks 0 this_spring state = Some state"
| "ticks (Suc n) this_spring state =
     (case applySpring this_spring state of
        None \<Rightarrow> None
      | Some state' \<Rightarrow> ticks n this_spring state')"

subsection \<open>The frame\<close>

text \<open>
  The body of the \<open>forEach\<close> callback, lines 115 to 128: the target is recomputed from
  the scroll progress and the layer's own speed, then the spring is applied.
\<close>

definition animateLayer :: "spring \<Rightarrow> real \<Rightarrow> real \<Rightarrow> layer_state \<Rightarrow> layer_state option" where
  "animateLayer this_spring scrollProgress heroHeight state =
     (let maxOffset = heroHeight * (3 / 10);
          state1 = state\<lparr>targetY := scrollProgress * maxOffset * speed state\<rparr>
      in applySpring this_spring state1)"

text \<open>\<open>Map.prototype.forEach\<close> with a callback that updates the value it is given.\<close>

fun forEach :: "('v \<Rightarrow> 'v option) \<Rightarrow> ('k \<times> 'v) list \<Rightarrow> ('k \<times> 'v) list option" where
  "forEach f [] = Some []"
| "forEach f ((layer, state) # rest) =
     (case f state of
        None \<Rightarrow> None
      | Some state' \<Rightarrow>
          (case forEach f rest of
             None \<Rightarrow> None
           | Some rest' \<Rightarrow> Some ((layer, state') # rest')))"

text \<open>
  \<open>animate\<close>, lines 102 to 138, without the write to \<open>layer.style.transform\<close> (which
  shows \<open>- currentY\<close>) and without the rescheduling. \<open>x || y\<close> takes \<open>y\<close> when \<open>x\<close>
  is \<open>undefined\<close> or \<open>0\<close>. The division by \<open>heroHeight\<close> is only reached in view,
  where \<open>heroHeight\<close> is not zero (lemma \<open>inView_heroHeight\<close>).
\<close>

definition heroTop :: "window \<Rightarrow> real" where
  "heroTop w = (case heroRect w of
                  None \<Rightarrow> 0
                | Some r \<Rightarrow> if rect_top r = 0 then 0 else rect_top r)"

definition heroHeight :: "window \<Rightarrow> real" where
  "heroHeight w = (case heroRect w of
                     None \<Rightarrow> innerHeight w
                   | Some r \<Rightarrow> if rect_height r = 0 then innerHeight w else rect_height r)"

definition isInView :: "window \<Rightarrow> bool" where
  "isInView w = (heroTop w < innerHeight w \<and> heroTop w + heroHeight w > 0)"

definition animate :: "window \<Rightarrow> 'layer controller \<Rightarrow> 'layer controller option" where
  "animate w this =
     (if isInView w then
        (let scrollProgress = max 0 (- heroTop w / heroHeight w)
         in case forEach (animateLayer (spring this) scrollProgress (heroHeight w))
                   (layerStates this) of
              None \<Rightarrow> None
            | Some states \<Rightarrow> Some (this\<lparr>layerStates := states\<rparr>))
      else Some this)"

text \<open>The animation loop: one call of \<open>animate\<close> per frame, each with what it reads.\<close>

fun frames :: "window list \<Rightarrow> 'layer controller \<Rightarrow> 'layer controller option" where
  "frames [] this = Some this"
| "frames (w # ws) this =
     (case animate w this of
        None \<Rightarrow> None
      | Some this' \<Rightarrow> frames ws this')"

subsection \<open>IEEE binary64\<close>

text \<open>
  A finite double is a real number on the binary64 grid: in the binade
  \<open>2^e \<le> |x| < 2^(e+1)\<close> with \<open>-1022 \<le> e \<le> 1023\<close> the grid has spacing
  \<open>2^(e-52)\<close>, below \<open>2^-1022\<close> (subnormal numbers) it has spacing \<open>2^-1074\<close>.
  \<open>exponent64\<close> finds the binade by search, \<open>round_even\<close> rounds to the nearest
  integer with ties to even, and \<open>fl\<close> rounds a real number to the nearest double.
  A result of magnitude \<open>2^1024\<close> or more is \<open>Infinity\<close> in JavaScript: \<open>fl\<close>
  returns \<open>None\<close>, which stands for every value that is not a finite number
  (\<open>Infinity\<close>, \<open>-Infinity\<close>, \<open>NaN\<close>). The sign of zero is not modelled.
\<close>

fun expo :: "nat \<Rightarrow> int \<Rightarrow> real \<Rightarrow> int" where
  "expo 0 e a = e"
| "expo (Suc fuel) e a = (if 2 powi (e + 1) \<le> a then expo fuel (e + 1) a else e)"

definition exponent64 :: "real \<Rightarrow> int" where
  "exponent64 x = expo 2046 (- 1022) \<bar>x\<bar>"

definition round_even :: "real \<Rightarrow> int" where
  "round_even y =
     (let f = \<lfloor>y\<rfloor>; d = y - of_int f
      in if d < 1 / 2 then f else if 1 / 2 < d then f + 1 else if even f then f else f + 1)"

definition fl :: "real \<Rightarrow> real option" where
  "fl x =
     (let q = 2 powi (exponent64 x - 52);
          r = of_int (round_even (x / q)) * q
      in if \<bar>r\<bar> < 2 ^ 1024 then Some r else None)"

subsection \<open>The spring in doubles\<close>

text \<open>
  The literals \<open>0.08\<close>, \<open>0.85\<close> and \<open>1\<close> of the constructor as the doubles they
  denote (lemmas \<open>fl_literal_stiffness\<close>, \<open>fl_literal_damping\<close> and
  \<open>fl_literal_mass\<close>).
\<close>

definition constructor_spring_double :: spring where
  "constructor_spring_double =
     \<lparr>stiffness = 5764607523034235 / 2 ^ 56, damping = 7656119366529843 / 2 ^ 53, mass = 1\<rparr>"

text \<open>
  \<open>calculateSpring\<close>, lines 82 to 100, with every arithmetic operation rounded. The
  unary minus is exact. As soon as an operation gives a value that is not a finite number
  the fields of the returned object are not finite either (with finite constants
  \<open>Infinity\<close> and \<open>NaN\<close> propagate through every later operation of the function),
  so the result is \<open>None\<close> exactly when the call returns a position that is not a
  finite number.
\<close>

definition calculateSpring_double ::
    "spring \<Rightarrow> real \<Rightarrow> real \<Rightarrow> real \<Rightarrow> real option \<Rightarrow> spring_result option" where
  "calculateSpring_double this_spring = (\<lambda>current target velocity dt_arg.
     (let dt = (case dt_arg of None \<Rightarrow> fl (1 / 60) | Some d \<Rightarrow> Some d);
          stiffness = spring.stiffness this_spring;
          damping = spring.damping this_spring;
          mass = spring.mass this_spring
      in Option.bind (fl (current - target)) (\<lambda>displacement.
         Option.bind (fl (- stiffness * displacement)) (\<lambda>springForce.
         Option.bind (fl (- damping * velocity)) (\<lambda>dampingForce.
         Option.bind (fl (springForce + dampingForce)) (\<lambda>force.
         Option.bind (if mass = 0 then None else fl (force / mass)) (\<lambda>acceleration.
         Option.bind (fl (velocity + acceleration)) (\<lambda>newVelocity.
         Option.bind (fl (current + newVelocity)) (\<lambda>newPosition.
         Some \<lparr>position = newPosition, spring_result.velocity = newVelocity\<rparr>)))))))))"

definition applySpring_double :: "spring \<Rightarrow> layer_state \<Rightarrow> layer_state option" where
  "applySpring_double this_spring state =
     (case calculateSpring_double this_spring (currentY state) (targetY state) (velocity state) None of
        None \<Rightarrow> None
      | Some springResult \<Rightarrow>
          Some (state\<lparr>currentY := position springResult,
                      velocity := spring_result.velocity springResult\<rparr>))"

fun ticks_double :: "nat \<Rightarrow> spring \<Rightarrow> layer_state \<Rightarrow> layer_state option" where
  "ticks_double 0 this_spring state = Some state"
| "ticks_double (Suc n) this_spring state =
     (case applySpring_double this_spring state of
        None \<Rightarrow> None
      | Some state' \<Rightarrow> ticks_double n this_spring state')"

subsection \<open>A norm for the settling proofs\<close>

text \<open>
  With displacement \<open>x = current - target\<close> and velocity \<open>v\<close>, one tick in exact
  arithmetic is the linear map \<open>x' = 0.92 x + 0.15 v\<close>, \<open>v' = -0.08 x + 0.15 v\<close>. Its
  eigenvalues are near 0.904 and 0.166; in the coordinates \<open>5 x + v\<close> and \<open>x + 10 v\<close>
  (near its eigenvectors) the larger absolute value shrinks on every tick.
\<close>

definition settle_norm :: "layer_state \<Rightarrow> real" where
  "settle_norm st =
     max (abs (5 * (currentY st - targetY st) + velocity st))
         (abs ((currentY st - targetY st) + 10 * velocity st))"

subsection \<open>An example page\<close>

text \<open>
  Two scroll positions of a page whose hero section is 1000 pixels high in a window of 800,
  and two controllers: one with a single layer, one with that layer stored after another
  one that is already moving.
\<close>

definition scrolled_100 :: window where
  "scrolled_100 = \<lparr>heroRect = Some \<lparr>rect_top = - 100, rect_height = 1000\<rparr>, innerHeight = 800\<rparr>"

definition scrolled_400 :: window where
  "scrolled_400 = \<lparr>heroRect = Some \<lparr>rect_top = - 400, rect_height = 1000\<rparr>, innerHeight = 800\<rparr>"

definition one_layer :: "nat controller" where
  "one_layer = \<lparr>spring = constructor_spring, layerStates = [(4, newLayerState (1 / 2))]\<rparr>"

definition two_layers :: "nat controller" where
  "two_layers =
     \<lparr>spring = constructor_spring,
      layerStates = [(7, \<lparr>currentY = 3, targetY = 0, velocity = 1, speed = 1\<rparr>),
                     (1, newLayerState (1 / 2))]\<rparr>"

section \<open>Properties of the spring step\<close>

lemma calculateSpring_Some:
  "spring.mass sp \<noteq> 0 \<Longrightarrow>
   calculateSpring sp c t v dt =
     Some \<lparr>position = c + (v + (- spring.stiffness sp * (c - t) + - spring.damping sp * v) / spring.mass sp),
           spring_result.velocity = v + (- spring.stiffness sp * (c - t) + - spring.damping sp * v) / spring.mass sp\<rparr>"
  by (simp add: calculateSpring_def Let_def)

lemma calculateSpring_None: "spring.mass sp = 0 \<Longrightarrow> calculateSpring sp c t v dt = None"
  by (simp add: calculateSpring_def Let_def)

lemma applySpring_targetY: "applySpring sp st = Some st' \<Longrightarrow> targetY st' = targetY st"
  by (auto simp: applySpring_def split: option.splits)

lemma applySpring_speed: "applySpring sp st = Some st' \<Longrightarrow> speed st' = speed st"
  by (auto simp: applySpring_def split: option.splits)

lemma ticks_targetY: "ticks n sp st = Some st' \<Longrightarrow> targetY st' = targetY st"
  by (induction n arbitrary: st) (auto split: option.splits dest: applySpring_targetY)

lemma ticks_speed: "ticks n sp st = Some st' \<Longrightarrow> speed st' = speed st"
  by (induction n arbitrary: st) (auto split: option.splits dest: applySpring_speed)

lemma ticks_total: "spring.mass sp \<noteq> 0 \<Longrightarrow> \<exists>st'. ticks n sp st = Some st'"
  by (induction n arbitrary: st) (auto simp: applySpring_def calculateSpring_Some)

lemma applySpring_rest:
  assumes "spring.mass sp \<noteq> 0" and "currentY st = targetY st" and "velocity st = 0"
  shows "applySpring sp st = Some st"
proof -
  have a: "(- spring.stiffness sp * (currentY st - targetY st) + - spring.damping sp * velocity st)
             / spring.mass sp = 0"
    by (simp add: assms(2,3))
  have "applySpring sp st = Some (st\<lparr>currentY := currentY st, velocity := velocity st\<rparr>)"
    unfolding applySpring_def calculateSpring_Some [OF assms(1)] a
    by (simp add: assms(3))
  then show ?thesis by simp
qed

text \<open>
  C1. With a mass that is not zero, one tick of a layer replaces its velocity by
  \<open>velocity + acceleration\<close> and its position by \<open>current + velocity_new\<close>, where
  \<open>acceleration = (- stiffness * (current - target) + (- damping * velocity)) / mass\<close>;
  target and speed stay as they are.
\<close>

theorem tick_is_reference_recurrence:
  assumes "spring.mass sp \<noteq> 0"
  shows "applySpring sp st =
           Some (st\<lparr>currentY := currentY st + (velocity st +
                         (- spring.stiffness sp * (currentY st - targetY st)
                            + (- spring.damping sp * velocity st)) / spring.mass sp),
                     velocity := velocity st +
                         (- spring.stiffness sp * (currentY st - targetY st)
                            + (- spring.damping sp * velocity st)) / spring.mass sp\<rparr>)"
  using assms by (simp add: applySpring_def calculateSpring_Some)

theorem tick_is_reference_recurrence_witness:
  "spring.mass constructor_spring \<noteq> 0 \<and>
   applySpring constructor_spring \<lparr>currentY = 10, targetY = 20, velocity = 2, speed = 1 / 2\<rparr> =
     Some \<lparr>currentY = 111 / 10, targetY = 20, velocity = 11 / 10, speed = 1 / 2\<rparr>"
proof -
  have m: "spring.mass constructor_spring \<noteq> 0"
    by (simp add: constructor_spring_def)
  show ?thesis
    using m tick_is_reference_recurrence [OF m,
        of "\<lparr>currentY = 10, targetY = 20, velocity = 2, speed = 1 / 2\<rparr>"]
    by (simp add: constructor_spring_def)
qed

text \<open>
  C2. A layer whose position equals its target and whose velocity is 0 is a fixed point:
  with a mass that is not zero, any number of ticks with the target held leaves the whole
  state as it is (position unchanged, velocity still 0).
\<close>

theorem rest_is_fixed_point:
  assumes "spring.mass sp \<noteq> 0" and "currentY st = targetY st" and "velocity st = 0"
  shows "ticks n sp st = Some st"
  by (induction n) (simp_all add: applySpring_rest [OF assms])

theorem rest_is_fixed_point_witness:
  "spring.mass constructor_spring \<noteq> 0 \<and>
   currentY \<lparr>currentY = 7, targetY = 7, velocity = 0, speed = 1 / 2\<rparr>
     = targetY \<lparr>currentY = 7, targetY = 7, velocity = 0, speed = 1 / 2\<rparr> \<and>
   velocity \<lparr>currentY = 7, targetY = 7, velocity = 0, speed = 1 / 2\<rparr> = 0 \<and>
   ticks 300 constructor_spring \<lparr>currentY = 7, targetY = 7, velocity = 0, speed = 1 / 2\<rparr>
     = Some \<lparr>currentY = 7, targetY = 7, velocity = 0, speed = 1 / 2\<rparr>"
proof -
  have m: "spring.mass constructor_spring \<noteq> 0"
    by (simp add: constructor_spring_def)
  show ?thesis
    using m rest_is_fixed_point [OF m,
        of "\<lparr>currentY = 7, targetY = 7, velocity = 0, speed = 1 / 2\<rparr>" 300]
    by simp
qed

text \<open>
  C3. With the constructor's constants (stiffness 0.08, damping 0.85, mass 1), a layer at
  position 0 with velocity 0 and target 100 has, after one tick, velocity 8 and position
  8.
\<close>

theorem first_tick_of_step_to_100:
  "applySpring constructor_spring ((newLayerState s)\<lparr>targetY := 100\<rparr>) =
     Some \<lparr>currentY = 8, targetY = 100, velocity = 8, speed = s\<rparr>"
  by (simp add: applySpring_def calculateSpring_def constructor_spring_def newLayerState_def)

text \<open>
  C7. The \<open>dt\<close> argument of \<open>calculateSpring\<close> has no effect: whatever is passed, the
  result is the one of the call without it (the default \<open>1/60\<close>).
\<close>

theorem calculateSpring_ignores_dt:
  "calculateSpring sp c t v dt = calculateSpring sp c t v None"
  by (simp add: calculateSpring_def Let_def)

text \<open>
  C10. The spring is homogeneous: scaling position, target and velocity by \<open>k\<close> scales
  the returned position and velocity by \<open>k\<close>, with the same constants.
\<close>

theorem calculateSpring_homogeneous:
  "calculateSpring sp (k * c) (k * t) (k * v) dt =
     map_option (\<lambda>r. \<lparr>position = k * position r,
                       spring_result.velocity = k * spring_result.velocity r\<rparr>)
       (calculateSpring sp c t v dt)"
  by (simp add: calculateSpring_def Let_def algebra_simps add_divide_distrib)

section \<open>No overshoot under the constructor's constants\<close>

lemma applySpring_constructor:
  obtains st' where "applySpring constructor_spring st = Some st'"
    and "velocity st' = 15 / 100 * velocity st - 8 / 100 * (currentY st - targetY st)"
    and "currentY st' = currentY st + velocity st'"
    and "targetY st' = targetY st" and "speed st' = speed st"
proof -
  have m: "spring.mass constructor_spring \<noteq> 0"
    by (simp add: constructor_spring_def)
  define s where "s = st\<lparr>currentY := currentY st + (velocity st +
                         (- spring.stiffness constructor_spring * (currentY st - targetY st)
                            + (- spring.damping constructor_spring * velocity st)) / spring.mass constructor_spring),
                     velocity := velocity st +
                         (- spring.stiffness constructor_spring * (currentY st - targetY st)
                            + (- spring.damping constructor_spring * velocity st)) / spring.mass constructor_spring\<rparr>"
  have "applySpring constructor_spring st = Some s"
    unfolding s_def using m by (simp add: applySpring_def calculateSpring_Some)
  moreover have "velocity s = 15 / 100 * velocity st - 8 / 100 * (currentY st - targetY st)"
    by (simp add: s_def constructor_spring_def)
  moreover have "currentY s = currentY st + velocity s"
    by (simp add: s_def)
  moreover have "targetY s = targetY st" "speed s = speed st"
    by (simp_all add: s_def)
  ultimately show thesis by (rule that)
qed

lemma cone_below_step:
  assumes "applySpring constructor_spring st = Some st'"
    and "currentY st \<le> targetY st" and "0 \<le> velocity st"
    and "velocity st \<le> targetY st - currentY st"
  shows "currentY st \<le> currentY st'" and "currentY st' \<le> targetY st'"
    and "0 \<le> velocity st'" and "velocity st' \<le> targetY st' - currentY st'"
    and "currentY st < targetY st \<Longrightarrow> currentY st' < targetY st'"
proof -
  obtain s where s: "applySpring constructor_spring st = Some s"
    and v: "velocity s = 15 / 100 * velocity st - 8 / 100 * (currentY st - targetY st)"
    and c: "currentY s = currentY st + velocity s"
    and t: "targetY s = targetY st"
    by (rule applySpring_constructor)
  from s assms(1) have eq: "st' = s" by simp
  have "0 \<le> velocity s"
    using assms(2-4) unfolding v by (simp add: algebra_simps)
  then show "currentY st \<le> currentY st'"
    unfolding eq c by simp
  show "currentY st' \<le> targetY st'"
    using assms(2-4) unfolding eq c t v by argo
  show "0 \<le> velocity st'"
    using assms(2-4) unfolding eq c t v by argo
  show "velocity st' \<le> targetY st' - currentY st'"
    using assms(2-4) unfolding eq c t v by argo
  show "currentY st' < targetY st'" if "currentY st < targetY st"
    using that assms(2-4) unfolding eq c t v by argo
qed

lemma cone_above_step:
  assumes "applySpring constructor_spring st = Some st'"
    and "targetY st \<le> currentY st" and "velocity st \<le> 0"
    and "targetY st - currentY st \<le> velocity st"
  shows "currentY st' \<le> currentY st" and "targetY st' \<le> currentY st'"
    and "velocity st' \<le> 0" and "targetY st' - currentY st' \<le> velocity st'"
    and "targetY st < currentY st \<Longrightarrow> targetY st' < currentY st'"
proof -
  obtain s where s: "applySpring constructor_spring st = Some s"
    and v: "velocity s = 15 / 100 * velocity st - 8 / 100 * (currentY st - targetY st)"
    and c: "currentY s = currentY st + velocity s"
    and t: "targetY s = targetY st"
    by (rule applySpring_constructor)
  from s assms(1) have eq: "st' = s" by simp
  have "velocity s \<le> 0"
    using assms(2-4) unfolding v by (simp add: algebra_simps)
  then show "currentY st' \<le> currentY st"
    unfolding eq c by simp
  show "targetY st' \<le> currentY st'"
    using assms(2-4) unfolding eq c t v by argo
  show "velocity st' \<le> 0"
    using assms(2-4) unfolding eq c t v by argo
  show "targetY st' - currentY st' \<le> velocity st'"
    using assms(2-4) unfolding eq c t v by argo
  show "targetY st' < currentY st'" if "targetY st < currentY st"
    using that assms(2-4) unfolding eq c t v by argo
qed

lemma cone_below_ticks:
  assumes "ticks n constructor_spring st = Some st'"
    and "currentY st \<le> targetY st" and "0 \<le> velocity st"
    and "velocity st \<le> targetY st - currentY st"
  shows "currentY st \<le> currentY st' \<and> currentY st' \<le> targetY st
       \<and> (currentY st < targetY st \<longrightarrow> currentY st' < targetY st)"
  using assms
proof (induction n arbitrary: st)
  case 0
  then show ?case by simp
next
  case (Suc n)
  then obtain s where s: "applySpring constructor_spring st = Some s"
    and r: "ticks n constructor_spring s = Some st'"
    by (auto split: option.splits)
  note step = cone_below_step [OF s Suc.prems(2-4)]
  have t: "targetY s = targetY st" by (rule applySpring_targetY [OF s])
  from Suc.IH [OF r step(2-4)] step(1) step(5) show ?case
    unfolding t by auto
qed

lemma cone_above_ticks:
  assumes "ticks n constructor_spring st = Some st'"
    and "targetY st \<le> currentY st" and "velocity st \<le> 0"
    and "targetY st - currentY st \<le> velocity st"
  shows "currentY st' \<le> currentY st \<and> targetY st \<le> currentY st'
       \<and> (targetY st < currentY st \<longrightarrow> targetY st < currentY st')"
  using assms
proof (induction n arbitrary: st)
  case 0
  then show ?case by simp
next
  case (Suc n)
  then obtain s where s: "applySpring constructor_spring st = Some s"
    and r: "ticks n constructor_spring s = Some st'"
    by (auto split: option.splits)
  note step = cone_above_step [OF s Suc.prems(2-4)]
  have t: "targetY s = targetY st" by (rule applySpring_targetY [OF s])
  from Suc.IH [OF r step(2-4)] step(1) step(5) show ?case
    unfolding t by auto
qed

text \<open>
  C5 (as the code behaves). Under the constructor's constants a layer that starts at rest
  never overshoots: after every number of ticks with the target held, the position lies
  between its starting value and the target, and it has not reached the target when it
  did not start there.
\<close>

theorem step_from_rest_never_overshoots:
  assumes "velocity st = 0"
  shows "\<exists>st'. ticks n constructor_spring st = Some st' \<and>
     (currentY st \<le> targetY st \<longrightarrow>
        currentY st \<le> currentY st' \<and> currentY st' \<le> targetY st) \<and>
     (targetY st \<le> currentY st \<longrightarrow>
        targetY st \<le> currentY st' \<and> currentY st' \<le> currentY st) \<and>
     (currentY st \<noteq> targetY st \<longrightarrow> currentY st' \<noteq> targetY st)"
proof -
  have "spring.mass constructor_spring \<noteq> 0"
    by (simp add: constructor_spring_def)
  then obtain st' where st': "ticks n constructor_spring st = Some st'"
    using ticks_total by blast
  have below: "currentY st \<le> currentY st' \<and> currentY st' \<le> targetY st
       \<and> (currentY st < targetY st \<longrightarrow> currentY st' < targetY st)"
    if "currentY st \<le> targetY st"
    using cone_below_ticks [OF st' that] that assms by simp
  have above: "currentY st' \<le> currentY st \<and> targetY st \<le> currentY st'
       \<and> (targetY st < currentY st \<longrightarrow> targetY st < currentY st')"
    if "targetY st \<le> currentY st"
    using cone_above_ticks [OF st' that] that assms by simp
  have ne: "currentY st' \<noteq> targetY st" if "currentY st \<noteq> targetY st"
  proof (cases "currentY st < targetY st")
    case True
    with below show ?thesis by simp
  next
    case False
    with that have "targetY st < currentY st" by simp
    with above show ?thesis by simp
  qed
  from st' below above ne show ?thesis by blast
qed

theorem step_from_rest_never_overshoots_witness:
  "velocity ((newLayerState (1 / 2))\<lparr>targetY := 100\<rparr>) = 0 \<and>
   (\<exists>st'. ticks 60 constructor_spring ((newLayerState (1 / 2))\<lparr>targetY := 100\<rparr>) = Some st' \<and>
      0 \<le> currentY st' \<and> currentY st' \<le> 100 \<and> currentY st' \<noteq> 100)"
proof -
  have v: "velocity ((newLayerState (1 / 2))\<lparr>targetY := 100\<rparr>) = 0"
    by (simp add: newLayerState_def)
  from step_from_rest_never_overshoots [OF v, of 60]
  obtain st' where "ticks 60 constructor_spring ((newLayerState (1 / 2))\<lparr>targetY := 100\<rparr>) = Some st'"
    and "0 \<le> currentY st'" and "currentY st' \<le> 100" and "currentY st' \<noteq> 100"
    by (auto simp: newLayerState_def)
  with v show ?thesis
    by (intro conjI exI [of _ st']) simp_all
qed

text \<open>
  The claim of an overshoot fails on the step it describes: from rest at 0 with the
  target stepped to 100, no number of ticks takes the position beyond 100.
\<close>

theorem overshoot_counterexample:
  "\<not> (\<exists>n st'. ticks n constructor_spring ((newLayerState (1 / 2))\<lparr>targetY := 100\<rparr>) = Some st'
        \<and> 100 < currentY st')"
proof
  assume "\<exists>n st'. ticks n constructor_spring ((newLayerState (1 / 2))\<lparr>targetY := 100\<rparr>) = Some st'
        \<and> 100 < currentY st'"
  then obtain n st' where
    t: "ticks n constructor_spring ((newLayerState (1 / 2))\<lparr>targetY := 100\<rparr>) = Some st'"
    and over: "100 < currentY st'"
    by blast
  have "currentY st' \<le> 100"
    using cone_below_ticks [OF t] by (simp add: newLayerState_def)
  with over show False by simp
qed

section \<open>The frame loop\<close>

lemma forEach_map_of:
  "forEach f xs = Some ys \<Longrightarrow>
   map_of ys k = (case map_of xs k of None \<Rightarrow> None | Some s \<Rightarrow> f s)"
proof (induction xs arbitrary: ys)
  case Nil
  then show ?case by simp
next
  case (Cons x xs)
  obtain layer state where x: "x = (layer, state)" by (cases x)
  from Cons.prems obtain state' rest' where f: "f state = Some state'"
    and r: "forEach f xs = Some rest'" and ys: "ys = (layer, state') # rest'"
    unfolding x by (auto split: option.splits)
  show ?case
    unfolding x ys using f Cons.IH [OF r] by simp
qed

lemma forEach_total:
  "(\<And>s. \<exists>s'. f s = Some s') \<Longrightarrow> \<exists>ys. forEach f xs = Some ys"
proof (induction xs)
  case Nil
  then show ?case by simp
next
  case (Cons x xs)
  obtain layer state where x: "x = (layer, state)" by (cases x)
  from Cons obtain ys where ys: "forEach f xs = Some ys" by blast
  from Cons.prems obtain s' where "f state = Some s'" by blast
  with ys show ?case unfolding x by simp
qed

lemma inView_heroHeight: "isInView w \<Longrightarrow> heroHeight w \<noteq> 0"
  by (auto simp: isInView_def heroHeight_def heroTop_def split: option.splits if_splits)

lemma animate_spring: "animate w c = Some c' \<Longrightarrow> spring c' = spring c"
  by (auto simp: animate_def Let_def split: if_splits option.splits)

lemma animate_lookup:
  assumes "animate w c = Some c'"
  shows "map_of (layerStates c') k =
     (case map_of (layerStates c) k of
        None \<Rightarrow> None
      | Some s \<Rightarrow>
          if isInView w
          then animateLayer (spring c) (max 0 (- heroTop w / heroHeight w)) (heroHeight w) s
          else Some s)"
proof (cases "isInView w")
  case True
  with assms obtain states where
    f: "forEach (animateLayer (spring c) (max 0 (- heroTop w / heroHeight w)) (heroHeight w))
          (layerStates c) = Some states"
    and c': "c' = c\<lparr>layerStates := states\<rparr>"
    by (auto simp: animate_def Let_def split: option.splits)
  show ?thesis
    using True forEach_map_of [OF f, of k] by (simp add: c' split: option.splits)
next
  case False
  with assms have "c' = c" by (simp add: animate_def)
  with False show ?thesis by (simp split: option.splits)
qed

lemma frames_spring: "frames ws c = Some c' \<Longrightarrow> spring c' = spring c"
  by (induction ws arbitrary: c) (auto split: option.splits dest: animate_spring)

lemma animate_total:
  assumes "spring.mass (spring c) \<noteq> 0"
  shows "\<exists>c'. animate w c = Some c'"
proof (cases "isInView w")
  case True
  have "\<exists>s'. animateLayer (spring c) p h s = Some s'" for p h s
    using assms by (simp add: animateLayer_def applySpring_def calculateSpring_Some Let_def)
  then obtain ys where
    "forEach (animateLayer (spring c) (max 0 (- heroTop w / heroHeight w)) (heroHeight w))
       (layerStates c) = Some ys"
    using forEach_total [of "animateLayer (spring c) (max 0 (- heroTop w / heroHeight w)) (heroHeight w)"
        "layerStates c"]
    by auto
  with True show ?thesis by (simp add: animate_def Let_def)
next
  case False
  then show ?thesis by (simp add: animate_def)
qed

lemma frames_total:
  "spring.mass (spring c) \<noteq> 0 \<Longrightarrow> \<exists>c'. frames ws c = Some c'"
proof (induction ws arbitrary: c)
  case Nil
  then show ?case by simp
next
  case (Cons w ws)
  from animate_total [OF Cons.prems] obtain c1 where c1: "animate w c = Some c1" by blast
  with Cons.prems have "spring.mass (spring c1) \<noteq> 0" by (simp add: animate_spring)
  from Cons.IH [OF this] c1 show ?case by simp
qed

lemma forEach_member:
  "forEach f xs = Some ys \<Longrightarrow> map_of xs k = Some s \<Longrightarrow> \<exists>s'. f s = Some s'"
proof (induction xs arbitrary: ys)
  case Nil
  then show ?case by simp
next
  case (Cons x xs)
  obtain layer state where x: "x = (layer, state)" by (cases x)
  from Cons.prems(1) obtain state' rest' where f: "f state = Some state'"
    and r: "forEach f xs = Some rest'"
    unfolding x by (auto split: option.splits)
  show ?case
  proof (cases "k = layer")
    case True
    with Cons.prems(2) f show ?thesis unfolding x by simp
  next
    case False
    with Cons.prems(2) have "map_of xs k = Some s" unfolding x by simp
    from Cons.IH [OF r this] show ?thesis .
  qed
qed

lemma animateLayer_held:
  assumes "targetY s = p * (h * (3 / 10)) * speed s"
  shows "animateLayer sp p h s = applySpring sp s"
proof -
  have "s\<lparr>targetY := p * (h * (3 / 10)) * speed s\<rparr> = s\<lparr>targetY := targetY s\<rparr>"
    by (simp only: assms)
  then show ?thesis
    by (simp add: animateLayer_def Let_def)
qed

text \<open>
  While the window does not change, the frames of the loop are the ticks of each layer
  with its target held at the value the window gives it.
\<close>

lemma frames_held_window:
  assumes "isInView w"
    and "frames (replicate n w) c = Some c'"
    and "map_of (layerStates c) k = Some s"
    and "targetY s = max 0 (- heroTop w / heroHeight w) * (heroHeight w * (3 / 10)) * speed s"
  shows "map_of (layerStates c') k = ticks n (spring c) s"
  using assms(2-4)
proof (induction n arbitrary: c s)
  case 0
  then show ?case by simp
next
  case (Suc n)
  from Suc.prems(1) obtain d where d: "animate w c = Some d"
    and r: "frames (replicate n w) d = Some c'"
    by (auto split: option.splits)
  have held: "animateLayer (spring c) (max 0 (- heroTop w / heroHeight w)) (heroHeight w) s
      = applySpring (spring c) s"
    by (rule animateLayer_held [OF Suc.prems(3)])
  from d assms(1) obtain states where
    f: "forEach (animateLayer (spring c) (max 0 (- heroTop w / heroHeight w)) (heroHeight w))
          (layerStates c) = Some states"
    by (auto simp: animate_def Let_def split: option.splits)
  from forEach_member [OF f Suc.prems(2)] held obtain s1 where
    s1: "applySpring (spring c) s = Some s1"
    by auto
  have look: "map_of (layerStates d) k = Some s1"
    using animate_lookup [OF d, of k] Suc.prems(2) assms(1) held s1 by simp
  have tgt: "targetY s1 = max 0 (- heroTop w / heroHeight w) * (heroHeight w * (3 / 10)) * speed s1"
    using Suc.prems(3) applySpring_targetY [OF s1] applySpring_speed [OF s1] by simp
  have "map_of (layerStates c') k = ticks n (spring d) s1"
    by (rule Suc.IH [OF r look tgt])
  then show ?case
    by (simp add: s1 animate_spring [OF d])
qed

text \<open>
  A frame that moves the target (the page has been scrolled), followed by frames with the
  window unchanged: the layer makes the ticks of a step of its target.
\<close>

lemma frames_step_window:
  assumes "isInView w"
    and "frames (replicate (Suc n) w) c = Some c'"
    and "map_of (layerStates c) k = Some s"
  shows "map_of (layerStates c') k =
     ticks (Suc n) (spring c)
       (s\<lparr>targetY := max 0 (- heroTop w / heroHeight w) * (heroHeight w * (3 / 10)) * speed s\<rparr>)"
proof -
  from assms(2) obtain d where d: "animate w c = Some d"
    and r: "frames (replicate n w) d = Some c'"
    by (auto split: option.splits)
  from d assms(1) obtain states where
    f: "forEach (animateLayer (spring c) (max 0 (- heroTop w / heroHeight w)) (heroHeight w))
          (layerStates c) = Some states"
    by (auto simp: animate_def Let_def split: option.splits)
  from forEach_member [OF f assms(3)] obtain s1 where
    a: "animateLayer (spring c) (max 0 (- heroTop w / heroHeight w)) (heroHeight w) s = Some s1"
    by auto
  then have s1: "applySpring (spring c)
      (s\<lparr>targetY := max 0 (- heroTop w / heroHeight w) * (heroHeight w * (3 / 10)) * speed s\<rparr>)
      = Some s1"
    by (simp add: animateLayer_def Let_def)
  have look: "map_of (layerStates d) k = Some s1"
    using animate_lookup [OF d, of k] assms(1,3) a by simp
  have tgt: "targetY s1 = max 0 (- heroTop w / heroHeight w) * (heroHeight w * (3 / 10)) * speed s1"
    using applySpring_targetY [OF s1] applySpring_speed [OF s1] by simp
  have "map_of (layerStates c') k = ticks n (spring d) s1"
    by (rule frames_held_window [OF assms(1) r look tgt])
  also have "\<dots> = ticks n (spring c) s1"
    by (simp only: animate_spring [OF d])
  also have "\<dots> = ticks (Suc n) (spring c)
       (s\<lparr>targetY := max 0 (- heroTop w / heroHeight w) * (heroHeight w * (3 / 10)) * speed s\<rparr>)"
    by (simp only: ticks.simps s1 option.case)
  finally show ?thesis .
qed

text \<open>
  C6. Channel independence. Two controllers with the same spring constants run the same
  frames (the same windows). If they hold the same state for a layer at the start (under
  whatever key, whatever else either of them holds), they hold the same state for it
  after the frames: a layer's trajectory depends on its own state, the window and the
  shared constants only.
\<close>

theorem channel_independence:
  assumes "frames ws c1 = Some c1'" and "frames ws c2 = Some c2'"
    and "spring c1 = spring c2"
    and "map_of (layerStates c1) k1 = map_of (layerStates c2) k2"
  shows "map_of (layerStates c1') k1 = map_of (layerStates c2') k2"
  using assms
proof (induction ws arbitrary: c1 c2)
  case Nil
  then show ?case by simp
next
  case (Cons w ws)
  from Cons.prems(1) obtain d1 where d1: "animate w c1 = Some d1" and r1: "frames ws d1 = Some c1'"
    by (auto split: option.splits)
  from Cons.prems(2) obtain d2 where d2: "animate w c2 = Some d2" and r2: "frames ws d2 = Some c2'"
    by (auto split: option.splits)
  have sp: "spring d1 = spring d2"
    using Cons.prems(3) animate_spring [OF d1] animate_spring [OF d2] by simp
  have "map_of (layerStates d1) k1 = map_of (layerStates d2) k2"
    unfolding animate_lookup [OF d1] animate_lookup [OF d2] Cons.prems(3) Cons.prems(4) ..
  from Cons.IH [OF r1 r2 sp this] show ?case .
qed

theorem channel_independence_witness:
  "frames [scrolled_100, scrolled_400] one_layer =
     Some \<lparr>spring = constructor_spring,
           layerStates = [(4, \<lparr>currentY = 1521 / 250, targetY = 60,
                                 velocity = 1221 / 250, speed = 1 / 2\<rparr>)]\<rparr> \<and>
   frames [scrolled_100, scrolled_400] two_layers =
     Some \<lparr>spring = constructor_spring,
           layerStates = [(7, \<lparr>currentY = 148317 / 10000, targetY = 120,
                                 velocity = 95217 / 10000, speed = 1\<rparr>),
                          (1, \<lparr>currentY = 1521 / 250, targetY = 60,
                                 velocity = 1221 / 250, speed = 1 / 2\<rparr>)]\<rparr> \<and>
   spring one_layer = spring two_layers \<and>
   map_of (layerStates one_layer) 4 = map_of (layerStates two_layers) 1 \<and>
   map_of [(4 :: nat, \<lparr>currentY = 1521 / 250, targetY = 60,
                         velocity = 1221 / 250, speed = 1 / 2\<rparr>)] 4 =
   map_of [(7 :: nat, \<lparr>currentY = 148317 / 10000, targetY = 120,
                         velocity = 95217 / 10000, speed = 1\<rparr>),
           (1, \<lparr>currentY = 1521 / 250, targetY = 60,
                  velocity = 1221 / 250, speed = 1 / 2\<rparr>)] 1"
proof -
  have f1: "frames [scrolled_100, scrolled_400] one_layer =
     Some \<lparr>spring = constructor_spring,
           layerStates = [(4, \<lparr>currentY = 1521 / 250, targetY = 60,
                                 velocity = 1221 / 250, speed = 1 / 2\<rparr>)]\<rparr>"
    by (simp add: one_layer_def scrolled_100_def scrolled_400_def animate_def isInView_def
        heroTop_def heroHeight_def animateLayer_def applySpring_def calculateSpring_def
        constructor_spring_def newLayerState_def Let_def)
  have f2: "frames [scrolled_100, scrolled_400] two_layers =
     Some \<lparr>spring = constructor_spring,
           layerStates = [(7, \<lparr>currentY = 148317 / 10000, targetY = 120,
                                 velocity = 95217 / 10000, speed = 1\<rparr>),
                          (1, \<lparr>currentY = 1521 / 250, targetY = 60,
                                 velocity = 1221 / 250, speed = 1 / 2\<rparr>)]\<rparr>"
    by (simp add: two_layers_def scrolled_100_def scrolled_400_def animate_def isInView_def
        heroTop_def heroHeight_def animateLayer_def applySpring_def calculateSpring_def
        constructor_spring_def newLayerState_def Let_def)
  have sp: "spring one_layer = spring two_layers"
    by (simp add: one_layer_def two_layers_def)
  have st: "map_of (layerStates one_layer) 4 = map_of (layerStates two_layers) 1"
    by (simp add: one_layer_def two_layers_def)
  from channel_independence [OF f1 f2 sp st] f1 f2 sp st show ?thesis
    by simp
qed

section \<open>Rounding to binary64\<close>

lemma round_even_error: "\<bar>of_int (round_even y) - y\<bar> \<le> 1 / 2"
proof -
  have "of_int \<lfloor>y\<rfloor> \<le> y" "y < of_int \<lfloor>y\<rfloor> + 1" by linarith+
  then show ?thesis
    by (auto simp: round_even_def Let_def)
qed

lemma round_even_of_int: "round_even (of_int n) = n"
  by (simp add: round_even_def Let_def)

lemma round_even_ge: "of_int m \<le> y \<Longrightarrow> m \<le> round_even y"
proof -
  assume "of_int m \<le> y"
  then have "m \<le> \<lfloor>y\<rfloor>" by (simp add: le_floor_iff)
  then show ?thesis by (auto simp: round_even_def Let_def)
qed

lemma round_even_le: "y \<le> of_int m \<Longrightarrow> round_even y \<le> m"
proof -
  assume y: "y \<le> of_int m"
  show ?thesis
  proof (cases "y = of_int m")
    case True
    then show ?thesis by (simp add: round_even_of_int)
  next
    case False
    with y have "y < of_int m" by simp
    then have "\<lfloor>y\<rfloor> < m" by (simp add: floor_less_iff)
    then show ?thesis by (auto simp: round_even_def Let_def)
  qed
qed

lemma expo_spec:
  "e \<le> expo fuel e a \<and> expo fuel e a \<le> e + int fuel
   \<and> (2 powi e \<le> a \<longrightarrow> 2 powi (expo fuel e a) \<le> a)
   \<and> (expo fuel e a < e + int fuel \<longrightarrow> a < 2 powi (expo fuel e a + 1))"
proof (induction fuel arbitrary: e)
  case 0
  then show ?case by simp
next
  case (Suc fuel)
  show ?case
  proof (cases "2 powi (e + 1) \<le> a")
    case True
    with Suc [of "e + 1"] show ?thesis by auto
  next
    case False
    then show ?thesis by auto
  qed
qed

lemma exponent64_range: "- 1022 \<le> exponent64 x" "exponent64 x \<le> 1024"
  using expo_spec [of "- 1022" 2046 "\<bar>x\<bar>"] by (simp_all add: exponent64_def)

lemma exponent64_lower: "2 powi (- 1022) \<le> \<bar>x\<bar> \<Longrightarrow> 2 powi (exponent64 x) \<le> \<bar>x\<bar>"
  using expo_spec [of "- 1022" 2046 "\<bar>x\<bar>"] by (simp add: exponent64_def)

lemma exponent64_upper: "exponent64 x < 1024 \<Longrightarrow> \<bar>x\<bar> < 2 powi (exponent64 x + 1)"
  using expo_spec [of "- 1022" 2046 "\<bar>x\<bar>"] by (simp add: exponent64_def)

lemma exponent64_eq:
  assumes "- 1022 \<le> e" and "e \<le> 1023" and "2 powi e \<le> \<bar>x\<bar>" and "\<bar>x\<bar> < 2 powi (e + 1)"
  shows "exponent64 x = e"
proof -
  have low: "2 powi (- 1022) \<le> \<bar>x\<bar>"
    using power_int_increasing [of "- 1022" e "2 :: real"] assms(1,3) by simp
  note l = exponent64_lower [OF low]
  have lt: "exponent64 x < e + 1"
  proof (rule ccontr)
    assume "\<not> exponent64 x < e + 1"
    then have "e + 1 \<le> exponent64 x" by simp
    then have "(2 :: real) powi (e + 1) \<le> 2 powi (exponent64 x)"
      by (intro power_int_increasing) simp_all
    with l assms(4) show False by simp
  qed
  then have "exponent64 x < 1024" using assms(2) by simp
  note u = exponent64_upper [OF this]
  have "e < exponent64 x + 1"
  proof (rule ccontr)
    assume "\<not> e < exponent64 x + 1"
    then have "exponent64 x + 1 \<le> e" by simp
    then have "(2 :: real) powi (exponent64 x + 1) \<le> 2 powi e"
      by (intro power_int_increasing) simp_all
    with u assms(3) show False by simp
  qed
  with lt show ?thesis by simp
qed

lemma exponent64_small:
  assumes "\<bar>x\<bar> < 2 powi (- 1021)"
  shows "exponent64 x = - 1022"
proof (rule ccontr)
  assume ne: "exponent64 x \<noteq> - 1022"
  with exponent64_range [of x] have g: "- 1021 \<le> exponent64 x" by simp
  have "2 powi (- 1022) \<le> \<bar>x\<bar>"
  proof (rule ccontr)
    assume "\<not> 2 powi (- 1022) \<le> \<bar>x\<bar>"
    then have "\<not> 2 powi (- 1022 + 1) \<le> \<bar>x\<bar>" 
      using power_int_increasing [of "- 1022" "- 1021" "2 :: real"] by simp
    then have "expo 2046 (- 1022) \<bar>x\<bar> = - 1022"
      by (simp add: eval_nat_numeral del: expo.simps) (simp add: expo.simps)
    with ne show False by (simp add: exponent64_def)
  qed
  from exponent64_lower [OF this] have "2 powi (exponent64 x) \<le> \<bar>x\<bar>" .
  moreover have "(2 :: real) powi (- 1021) \<le> 2 powi (exponent64 x)"
    using g by (intro power_int_increasing) simp_all
  ultimately show False using assms by simp
qed


lemma quantum_pos: "0 < (2 :: real) powi k"
  by simp

lemma quantum_bound: "2 powi (exponent64 x - 52) \<le> \<bar>x\<bar> / 2 ^ 52 + 1 / 2 ^ 1074"
proof (cases "2 powi (- 1022) \<le> \<bar>x\<bar>")
  case True
  have "(2 :: real) powi (exponent64 x - 52) = 2 powi (exponent64 x) / 2 ^ 52"
    by (simp add: power_int_diff)
  also have "\<dots> \<le> \<bar>x\<bar> / 2 ^ 52"
    using exponent64_lower [OF True] by (simp add: divide_right_mono)
  finally show ?thesis by simp
next
  case False
  then have "\<bar>x\<bar> < 2 powi (- 1021)"
    using power_int_increasing [of "- 1022" "- 1021" "2 :: real"] by simp
  then have "exponent64 x = - 1022" by (rule exponent64_small)
  then have "(2 :: real) powi (exponent64 x - 52) = 1 / 2 ^ 1074"
    by (simp add: power_int_minus field_simps)
  then show ?thesis by simp
qed

lemma fl_Some_iff:
  "fl x = Some r \<longleftrightarrow>
     r = of_int (round_even (x / 2 powi (exponent64 x - 52))) * 2 powi (exponent64 x - 52)
     \<and> \<bar>r\<bar> < 2 ^ 1024"
  by (auto simp: fl_def Let_def)

lemma fl_grid_error:
  "\<bar>of_int (round_even (x / 2 powi k)) * 2 powi k - x\<bar> \<le> 2 powi k / 2"
proof -
  have q: "0 < (2 :: real) powi k" by simp
  have "of_int (round_even (x / 2 powi k)) * 2 powi k - x
      = (of_int (round_even (x / 2 powi k)) - x / 2 powi k) * 2 powi k"
    using q by (simp add: field_simps)
  then have "\<bar>of_int (round_even (x / 2 powi k)) * 2 powi k - x\<bar>
      = \<bar>of_int (round_even (x / 2 powi k)) - x / 2 powi k\<bar> * 2 powi k"
    using q by (simp add: abs_mult)
  also have "\<dots> \<le> 1 / 2 * 2 powi k"
    by (intro mult_right_mono round_even_error) simp
  finally show ?thesis by simp
qed

lemma fl_error:
  assumes "fl x = Some r"
  shows "\<bar>r - x\<bar> \<le> \<bar>x\<bar> / 2 ^ 53 + 1 / 2 ^ 1075"
proof -
  from assms have r: "r = of_int (round_even (x / 2 powi (exponent64 x - 52))) * 2 powi (exponent64 x - 52)"
    by (simp add: fl_Some_iff)
  have "\<bar>r - x\<bar> \<le> 2 powi (exponent64 x - 52) / 2"
    unfolding r by (rule fl_grid_error)
  also have "\<dots> \<le> (\<bar>x\<bar> / 2 ^ 52 + 1 / 2 ^ 1074) / 2"
    by (intro divide_right_mono quantum_bound) simp
  also have "\<dots> = \<bar>x\<bar> / 2 ^ 53 + 1 / 2 ^ 1075"
    by simp
  finally show ?thesis .
qed

lemma fl_total:
  assumes "\<bar>x\<bar> \<le> 2 ^ 1023"
  shows "\<exists>r. fl x = Some r"
proof -
  define r :: real where
    "r = of_int (round_even (x / 2 powi (exponent64 x - 52))) * 2 powi (exponent64 x - 52)"
  have "\<bar>r - x\<bar> \<le> 2 powi (exponent64 x - 52) / 2"
    unfolding r_def by (rule fl_grid_error)
  also have "\<dots> \<le> (\<bar>x\<bar> / 2 ^ 52 + 1 / 2 ^ 1074) / 2"
    by (intro divide_right_mono quantum_bound) simp
  also have "\<dots> \<le> (2 ^ 1023 / 2 ^ 52 + 1 / 2 ^ 1074) / 2"
    using assms by (intro divide_right_mono add_right_mono) simp_all
  finally have "\<bar>r - x\<bar> \<le> (2 ^ 1023 / 2 ^ 52 + 1 / 2 ^ 1074) / 2" .
  with assms have "\<bar>r\<bar> \<le> 2 ^ 1023 + (2 ^ 1023 / 2 ^ 52 + 1 / 2 ^ 1074) / 2"
    by linarith
  also have "\<dots> < 2 ^ 1024" by simp
  finally show ?thesis
    by (simp add: fl_Some_iff r_def)
qed

lemma fl_overflow:
  assumes "2 ^ 1024 \<le> \<bar>x\<bar>"
  shows "fl x = None"
proof -
  have p: "(2 :: real) powi 1024 = 2 ^ 1024" by simp
  have low: "2 powi (- 1022) \<le> \<bar>x\<bar>"
  proof -
    have "(2 :: real) powi (- 1022) \<le> 2 powi 1024"
      by (intro power_int_increasing) simp_all
    with assms p show ?thesis by linarith
  qed
  have E: "exponent64 x = 1024"
  proof (rule ccontr)
    assume "exponent64 x \<noteq> 1024"
    with exponent64_range [of x] have lt: "exponent64 x < 1024" by simp
    then have "(2 :: real) powi (exponent64 x + 1) \<le> 2 powi 1024"
      by (intro power_int_increasing) simp_all
    with exponent64_upper [OF lt] assms p show False by linarith
  qed
  have q: "(2 :: real) powi (exponent64 x - 52) = 2 ^ 972"
    by (simp add: E)
  have big: "2 ^ 52 \<le> \<bar>x / 2 ^ 972\<bar>"
  proof -
    have "(2 :: real) ^ 52 * 2 ^ 972 = 2 ^ 1024" by (simp add: power_add [symmetric])
    then have "(2 :: real) ^ 52 = 2 ^ 1024 / 2 ^ 972" by (simp add: field_simps)
    also have "\<dots> \<le> \<bar>x\<bar> / 2 ^ 972" using assms by (intro divide_right_mono) simp_all
    finally show ?thesis by simp
  qed
  have "2 ^ 52 \<le> \<bar>round_even (x / 2 ^ 972)\<bar>"
  proof (cases "0 \<le> x")
    case True
    with big have "of_int (2 ^ 52) \<le> x / 2 ^ 972" by simp
    from round_even_ge [OF this] show ?thesis by simp
  next
    case False
    with big have "x / 2 ^ 972 \<le> of_int (- (2 ^ 52))" by simp
    from round_even_le [OF this] show ?thesis by simp
  qed
  then have "(2 :: real) ^ 52 \<le> \<bar>of_int (round_even (x / 2 ^ 972))\<bar>"
    by (metis of_int_abs of_int_le_iff of_int_numeral of_int_power)
  then have "(2 :: real) ^ 52 * 2 ^ 972 \<le> \<bar>of_int (round_even (x / 2 ^ 972))\<bar> * 2 ^ 972"
    by (intro mult_right_mono) simp_all
  then have "(2 :: real) ^ 1024 \<le> \<bar>of_int (round_even (x / 2 ^ 972)) * 2 ^ 972\<bar>"
    by (simp add: abs_mult power_add [symmetric])
  then show ?thesis
    by (simp add: fl_def Let_def q del: of_int_abs)
qed

lemma fl_nonneg:
  assumes "fl x = Some r" and "0 \<le> x"
  shows "0 \<le> r"
proof -
  from assms(1) have r: "r = of_int (round_even (x / 2 powi (exponent64 x - 52))) * 2 powi (exponent64 x - 52)"
    by (simp add: fl_Some_iff)
  have "of_int 0 \<le> x / 2 powi (exponent64 x - 52)" using assms(2) by simp
  from round_even_ge [OF this] show ?thesis
    unfolding r by simp
qed

lemma fl_nonpos:
  assumes "fl x = Some r" and "x \<le> 0"
  shows "r \<le> 0"
proof -
  from assms(1) have r: "r = of_int (round_even (x / 2 powi (exponent64 x - 52))) * 2 powi (exponent64 x - 52)"
    by (simp add: fl_Some_iff)
  have "x / 2 powi (exponent64 x - 52) \<le> of_int 0"
    using assms(2) by (simp add: divide_nonpos_pos)
  from round_even_le [OF this] show ?thesis
    unfolding r by (simp add: mult_nonpos_nonneg)
qed

lemma fl_normal:
  assumes "- 1022 \<le> e" and "e \<le> 1023" and "2 powi e \<le> \<bar>x\<bar>" and "\<bar>x\<bar> < 2 powi (e + 1)"
    and "\<bar>of_int (round_even (x / 2 powi (e - 52))) * 2 powi (e - 52) :: real\<bar> < 2 ^ 1024"
  shows "fl x = Some (of_int (round_even (x / 2 powi (e - 52))) * 2 powi (e - 52))"
  using assms(5) by (simp add: fl_Some_iff exponent64_eq [OF assms(1-4)])


lemma fl_normal_eval:
  assumes "- 1022 \<le> e" and "e \<le> 1023" and "2 powi e \<le> \<bar>x\<bar>" and "\<bar>x\<bar> < 2 powi (e + 1)"
    and "round_even (x / 2 powi (e - 52)) = n"
    and "r = of_int n * 2 powi (e - 52)"
    and "\<bar>r\<bar> < 2 ^ 1024"
  shows "fl x = Some r"
  using assms(7) unfolding assms(6)
  by (simp add: fl_Some_iff exponent64_eq [OF assms(1-4)] assms(5))

lemma round_even_near:
  assumes "of_int n \<le> y" and "y < of_int n + 1 / 2"
  shows "round_even y = n"
proof -
  from assms have "\<lfloor>y\<rfloor> = n" by linarith
  with assms(2) show ?thesis by (simp add: round_even_def Let_def)
qed

lemma fl_unit:
  assumes "\<bar>x\<bar> \<le> 1"
  shows "\<exists>r. fl x = Some r \<and> \<bar>r - x\<bar> \<le> 1 / 2 ^ 52"
proof -
  from assms have "\<bar>x\<bar> \<le> 2 ^ 1023" by (rule order_trans) simp
  then obtain r where r: "fl x = Some r" using fl_total by blast
  have "\<bar>r - x\<bar> \<le> \<bar>x\<bar> / 2 ^ 53 + 1 / 2 ^ 1075" by (rule fl_error [OF r])
  also have "\<dots> \<le> 1 / 2 ^ 53 + 1 / 2 ^ 1075"
    using assms by (intro add_right_mono divide_right_mono) simp_all
  also have "\<dots> \<le> 1 / 2 ^ 52" by simp
  finally show ?thesis using r by blast
qed

lemma fl_bound:
  assumes "\<bar>x\<bar> \<le> B" and "1 \<le> B" and "B \<le> 2 ^ 1023"
  shows "\<exists>r. fl x = Some r \<and> \<bar>r\<bar> \<le> 2 * B"
proof -
  from assms have "\<bar>x\<bar> \<le> 2 ^ 1023" by linarith
  then obtain r where r: "fl x = Some r" using fl_total by blast
  have "\<bar>r - x\<bar> \<le> \<bar>x\<bar> / 2 ^ 53 + 1 / 2 ^ 1075" by (rule fl_error [OF r])
  also have "\<dots> \<le> B / 2 ^ 53 + 1 / 2 ^ 1075"
    using assms(1) by (intro add_right_mono divide_right_mono) simp_all
  also have "\<dots> \<le> B / 2 + B / 2"
    using assms(2) by (intro add_mono) (simp_all add: field_simps)
  finally have "\<bar>r - x\<bar> \<le> B" by simp
  with assms(1) have "\<bar>r\<bar> \<le> 2 * B" by linarith
  with r show ?thesis by blast
qed

lemma fl_step:
  assumes "\<bar>z\<bar> \<le> Z" and "Z \<le> 2 ^ 1023"
  obtains y where "fl z = Some y" and "\<bar>y - z\<bar> \<le> Z / 2 ^ 53 + 1 / 2 ^ 1075"
    and "\<bar>y\<bar> \<le> 2 * Z + 1 / 2 ^ 1075"
proof -
  from assms have "\<bar>z\<bar> \<le> 2 ^ 1023" by linarith
  then obtain y where y: "fl z = Some y" using fl_total by blast
  have Z0: "0 \<le> Z" using assms(1) by linarith
  have "\<bar>y - z\<bar> \<le> \<bar>z\<bar> / 2 ^ 53 + 1 / 2 ^ 1075" by (rule fl_error [OF y])
  also have "\<dots> \<le> Z / 2 ^ 53 + 1 / 2 ^ 1075"
    using assms(1) by (intro add_right_mono divide_right_mono) simp_all
  finally have e: "\<bar>y - z\<bar> \<le> Z / 2 ^ 53 + 1 / 2 ^ 1075" .
  have "Z / 2 ^ 53 \<le> Z" using Z0 by (simp add: field_simps)
  with e assms(1) have "\<bar>y\<bar> \<le> 2 * Z + 1 / 2 ^ 1075" by linarith
  with y e show thesis using that by blast
qed

text \<open>The doubles that the proofs below meet.\<close>

lemma fl_literal_stiffness: "fl (8 / 100) = Some (5764607523034235 / 2 ^ 56)"
  by (rule fl_normal_eval [where e = "- 4" and n = 5764607523034235])
     (simp_all add: round_even_def Let_def power_int_minus)

lemma fl_literal_damping: "fl (85 / 100) = Some (7656119366529843 / 2 ^ 53)"
  by (rule fl_normal_eval [where e = "- 1" and n = 7656119366529843])
     (simp_all add: round_even_def Let_def power_int_minus)

lemma fl_literal_mass: "fl 1 = Some 1"
  by (rule fl_normal_eval [where e = 0 and n = "2 ^ 52"])
     (simp_all add: round_even_def Let_def power_int_minus)

lemma fl_minus_two: "fl (- 2) = Some (- 2)"
  by (rule fl_normal_eval [where e = 1 and n = "- (2 ^ 52)"])
     (simp_all add: round_even_def Let_def power_int_minus)

lemma fl_spring_force: "fl (5764607523034235 / 2 ^ 55) = Some (5764607523034235 / 2 ^ 55)"
  by (rule fl_normal_eval [where e = "- 3" and n = 5764607523034235])
     (simp_all add: round_even_def Let_def power_int_minus)

lemma fl_stall:
  assumes "0 \<le> w" and "w \<le> 1 / 4"
  shows "fl (10 ^ 16 + w) = Some (10 ^ 16)"
proof (rule fl_normal_eval [where e = 53 and n = "5 * 10 ^ 15"])
  show "round_even ((10 ^ 16 + w) / 2 powi (53 - 52)) = 5 * 10 ^ 15"
    using assms by (intro round_even_near) simp_all
qed (use assms in simp_all)

lemma fl_max_power: "fl (2 ^ 1023) = Some (2 ^ 1023)"
  by (rule fl_normal_eval [where e = 1023 and n = "2 ^ 52"])
     (simp_all add: round_even_def Let_def power_int_minus)

section \<open>Overflow\<close>

lemma calculateSpring_double_Some:
  assumes "fl (c - t) = Some displacement"
    and "fl (- spring.stiffness sp * displacement) = Some springForce"
    and "fl (- spring.damping sp * v) = Some dampingForce"
    and "fl (springForce + dampingForce) = Some force"
    and "spring.mass sp \<noteq> 0"
    and "fl (force / spring.mass sp) = Some acceleration"
    and "fl (v + acceleration) = Some newVelocity"
    and "fl (c + newVelocity) = Some newPosition"
  shows "calculateSpring_double sp c t v dt =
           Some \<lparr>position = newPosition, spring_result.velocity = newVelocity\<rparr>"
  using assms by (simp add: calculateSpring_double_def Let_def)

lemma calculateSpring_double_overflow:
  assumes "2 ^ 1024 \<le> \<bar>c - t\<bar>"
  shows "calculateSpring_double sp c t v dt = None"
  by (simp add: calculateSpring_double_def Let_def fl_overflow [OF assms])

lemma bounded_step:
  assumes c: "\<bar>c\<bar> \<le> 2 ^ 900" and t: "\<bar>t\<bar> \<le> 2 ^ 900" and v: "\<bar>v\<bar> \<le> 2 ^ 900"
    and k: "0 < spring.stiffness sp" "spring.stiffness sp \<le> 2 ^ 20"
    and d: "0 < spring.damping sp" "spring.damping sp \<le> 2 ^ 20"
    and m: "1 / 2 ^ 20 \<le> spring.mass sp"
  shows "\<exists>r. calculateSpring_double sp c t v dt = Some r
           \<and> \<bar>position r\<bar> \<le> 2 ^ 950 \<and> \<bar>spring_result.velocity r\<bar> \<le> 2 ^ 950"
proof -
  have "\<bar>c - t\<bar> \<le> 2 ^ 901" using c t by simp
  from fl_bound [OF this] obtain displacement where
    s1: "fl (c - t) = Some displacement" and b1: "\<bar>displacement\<bar> \<le> 2 ^ 902"
    by auto
  have "\<bar>- spring.stiffness sp * displacement\<bar> = spring.stiffness sp * \<bar>displacement\<bar>"
    using k by (simp add: abs_mult)
  also have "\<dots> \<le> 2 ^ 20 * 2 ^ 902"
    using k b1 by (intro mult_mono) simp_all
  also have "\<dots> = 2 ^ 922" by simp
  finally have "\<bar>- spring.stiffness sp * displacement\<bar> \<le> 2 ^ 922" .
  from fl_bound [OF this] obtain springForce where
    s2: "fl (- spring.stiffness sp * displacement) = Some springForce"
    and b2: "\<bar>springForce\<bar> \<le> 2 ^ 923"
    by auto
  have "\<bar>- spring.damping sp * v\<bar> = spring.damping sp * \<bar>v\<bar>"
    using d by (simp add: abs_mult)
  also have "\<dots> \<le> 2 ^ 20 * 2 ^ 900"
    using d v by (intro mult_mono) simp_all
  also have "\<dots> = 2 ^ 920" by simp
  finally have "\<bar>- spring.damping sp * v\<bar> \<le> 2 ^ 920" .
  from fl_bound [OF this] obtain dampingForce where
    s3: "fl (- spring.damping sp * v) = Some dampingForce"
    and b3: "\<bar>dampingForce\<bar> \<le> 2 ^ 921"
    by auto
  have "\<bar>springForce + dampingForce\<bar> \<le> 2 ^ 924" using b2 b3 by simp
  from fl_bound [OF this] obtain force where
    s4: "fl (springForce + dampingForce) = Some force" and b4: "\<bar>force\<bar> \<le> 2 ^ 925"
    by auto
  have m0: "0 < spring.mass sp" using m by (rule less_le_trans [rotated]) simp
  then have mne: "spring.mass sp \<noteq> 0" by simp
  have "\<bar>force / spring.mass sp\<bar> = \<bar>force\<bar> / spring.mass sp"
    using m0 by simp
  also have "\<dots> \<le> \<bar>force\<bar> / (1 / 2 ^ 20)"
    using m by (intro divide_left_mono) simp_all
  also have "\<dots> \<le> 2 ^ 925 / (1 / 2 ^ 20)"
    using b4 by (intro divide_right_mono) simp_all
  also have "\<dots> = 2 ^ 945" by simp
  finally have "\<bar>force / spring.mass sp\<bar> \<le> 2 ^ 945" .
  from fl_bound [OF this] obtain acceleration where
    s5: "fl (force / spring.mass sp) = Some acceleration" and b5: "\<bar>acceleration\<bar> \<le> 2 ^ 946"
    by auto
  have "\<bar>v + acceleration\<bar> \<le> 2 ^ 947" using v b5 by simp
  from fl_bound [OF this] obtain newVelocity where
    s6: "fl (v + acceleration) = Some newVelocity" and b6: "\<bar>newVelocity\<bar> \<le> 2 ^ 948"
    by auto
  have "\<bar>c + newVelocity\<bar> \<le> 2 ^ 949" using c b6 by simp
  from fl_bound [OF this] obtain newPosition where
    s7: "fl (c + newVelocity) = Some newPosition" and b7: "\<bar>newPosition\<bar> \<le> 2 ^ 950"
    by auto
  have "\<bar>newVelocity\<bar> \<le> 2 ^ 950" using b6 by simp
  with calculateSpring_double_Some [OF s1 s2 s3 s4 mne s5 s6 s7, of dt] b7
  show ?thesis by simp
qed

text \<open>
  C9 (as the code behaves). Away from the end of the double range a tick keeps the
  numbers finite: if current, target and velocity have magnitude at most \<open>2^900\<close>,
  stiffness and damping are positive and at most \<open>2^20\<close> and mass is at least
  \<open>2^-20\<close>, then the tick stores finite numbers (of magnitude at most \<open>2^950\<close>)
  and leaves the target as it was.
\<close>

theorem bounded_tick_stays_finite:
  assumes "\<bar>currentY st\<bar> \<le> 2 ^ 900" and "\<bar>targetY st\<bar> \<le> 2 ^ 900"
    and "\<bar>velocity st\<bar> \<le> 2 ^ 900"
    and "0 < spring.stiffness sp" and "spring.stiffness sp \<le> 2 ^ 20"
    and "0 < spring.damping sp" and "spring.damping sp \<le> 2 ^ 20"
    and "1 / 2 ^ 20 \<le> spring.mass sp"
  shows "\<exists>st'. applySpring_double sp st = Some st' \<and> targetY st' = targetY st
           \<and> \<bar>currentY st'\<bar> \<le> 2 ^ 950 \<and> \<bar>velocity st'\<bar> \<le> 2 ^ 950"
proof -
  from bounded_step [OF assms, of None] obtain r where
    r: "calculateSpring_double sp (currentY st) (targetY st) (velocity st) None = Some r"
    and b: "\<bar>position r\<bar> \<le> 2 ^ 950" "\<bar>spring_result.velocity r\<bar> \<le> 2 ^ 950"
    by blast
  have "applySpring_double sp st
      = Some (st\<lparr>currentY := position r, velocity := spring_result.velocity r\<rparr>)"
    by (simp add: applySpring_double_def r)
  with b show ?thesis by simp
qed

theorem bounded_tick_stays_finite_witness:
  "\<bar>currentY ((newLayerState (1 / 2))\<lparr>targetY := 100\<rparr>)\<bar> \<le> 2 ^ 900 \<and>
   \<bar>targetY ((newLayerState (1 / 2))\<lparr>targetY := 100\<rparr>)\<bar> \<le> 2 ^ 900 \<and>
   \<bar>velocity ((newLayerState (1 / 2))\<lparr>targetY := 100\<rparr>)\<bar> \<le> 2 ^ 900 \<and>
   0 < spring.stiffness constructor_spring_double \<and>
   spring.stiffness constructor_spring_double \<le> 2 ^ 20 \<and>
   0 < spring.damping constructor_spring_double \<and>
   spring.damping constructor_spring_double \<le> 2 ^ 20 \<and>
   1 / 2 ^ 20 \<le> spring.mass constructor_spring_double \<and>
   (\<exists>st'. applySpring_double constructor_spring_double ((newLayerState (1 / 2))\<lparr>targetY := 100\<rparr>)
            = Some st' \<and> targetY st' = 100
          \<and> \<bar>currentY st'\<bar> \<le> 2 ^ 950 \<and> \<bar>velocity st'\<bar> \<le> 2 ^ 950)"
proof -
  have h: "\<bar>currentY ((newLayerState (1 / 2))\<lparr>targetY := 100\<rparr>)\<bar> \<le> 2 ^ 900"
    "\<bar>targetY ((newLayerState (1 / 2))\<lparr>targetY := 100\<rparr>)\<bar> \<le> 2 ^ 900"
    "\<bar>velocity ((newLayerState (1 / 2))\<lparr>targetY := 100\<rparr>)\<bar> \<le> 2 ^ 900"
    "0 < spring.stiffness constructor_spring_double"
    "spring.stiffness constructor_spring_double \<le> 2 ^ 20"
    "0 < spring.damping constructor_spring_double"
    "spring.damping constructor_spring_double \<le> 2 ^ 20"
    "1 / 2 ^ 20 \<le> spring.mass constructor_spring_double"
    by (simp_all add: newLayerState_def constructor_spring_double_def)
  from bounded_tick_stays_finite [OF h] h show ?thesis
    by (simp add: newLayerState_def)
qed

text \<open>
  The claim fails for large finite inputs: \<open>2^1023\<close> is a finite double, the
  constructor's constants are positive, and with current \<open>2^1023\<close> and target
  \<open>-2^1023\<close> the subtraction \<open>current - target\<close> overflows, so that the tick stores
  numbers that are not finite.
\<close>

theorem finite_inputs_overflow_counterexample:
  "fl (2 ^ 1023) = Some (2 ^ 1023) \<and>
   0 < spring.stiffness constructor_spring_double \<and>
   0 < spring.damping constructor_spring_double \<and>
   0 < spring.mass constructor_spring_double \<and>
   applySpring_double constructor_spring_double
     \<lparr>currentY = 2 ^ 1023, targetY = - (2 ^ 1023), velocity = 0, speed = 1 / 2\<rparr> = None"
proof -
  have "(2 :: real) ^ 1024 \<le> \<bar>2 ^ 1023 - - (2 ^ 1023)\<bar>"
    by simp
  from calculateSpring_double_overflow [OF this]
  have "applySpring_double constructor_spring_double
     \<lparr>currentY = 2 ^ 1023, targetY = - (2 ^ 1023), velocity = 0, speed = 1 / 2\<rparr> = None"
    by (simp add: applySpring_double_def)
  then show ?thesis
    using fl_max_power by (simp add: constructor_spring_double_def)
qed

section \<open>Settling in doubles\<close>

lemma displacement_bound:
  fixes x v :: real
  shows "abs x \<le> 11 / 49 * max (abs (5 * x + v)) (abs (x + 10 * v))"
proof -
  define p q where "p = 5 * x + v" and "q = x + 10 * v"
  define M where "M = max (abs p) (abs q)"
  have pq: "- M \<le> p" "p \<le> M" "- M \<le> q" "q \<le> M"
    unfolding M_def by linarith+
  have "abs x = abs ((10 * p - q) / 49)"
    by (simp add: p_def q_def)
  also have "\<dots> \<le> 11 / 49 * M"
    unfolding abs_le_iff using pq by (simp add: field_simps)
  finally show ?thesis
    unfolding M_def p_def q_def .
qed

lemma start_bound:
  fixes x v :: real
  shows "max (abs (5 * x + v)) (abs (x + 10 * v)) \<le> 5 * abs x + 10 * abs v"
proof -
  have "abs (5 * x + v) \<le> 5 * abs x + 10 * abs v" by linarith
  moreover have "abs (x + 10 * v) \<le> 5 * abs x + 10 * abs v" by linarith
  ultimately show ?thesis by simp
qed

lemma contraction_sharp:
  fixes x v :: real
  defines "x' \<equiv> x + (15 / 100 * v - 8 / 100 * x)" and "v' \<equiv> 15 / 100 * v - 8 / 100 * x"
  shows "max (abs (5 * x' + v')) (abs (x' + 10 * v'))
         \<le> 1809 / 2000 * max (abs (5 * x + v)) (abs (x + 10 * v))"
proof -
  define p q where "p = 5 * x + v" and "q = x + 10 * v"
  define M where "M = max (abs p) (abs q)"
  have pq: "- M \<le> p" "p \<le> M" "- M \<le> q" "q \<le> M"
    unfolding M_def by linarith+
  have p': "5 * x' + v' = (4430 * p - 2 * q) / 4900"
    by (simp add: x'_def v'_def p_def q_def)
  have q': "x' + 10 * v' = (813 * q - 45 * p) / 4900"
    by (simp add: x'_def v'_def p_def q_def)
  have "abs (5 * x' + v') \<le> 1809 / 2000 * M"
    unfolding p' abs_le_iff using pq by (simp add: field_simps)
  moreover have "abs (x' + 10 * v') \<le> 1809 / 2000 * M"
    unfolding q' abs_le_iff using pq by (simp add: field_simps)
  ultimately have "max (abs (5 * x' + v')) (abs (x' + 10 * v')) \<le> 1809 / 2000 * M"
    by (rule max.boundedI)
  then show ?thesis
    unfolding M_def p_def q_def .
qed

lemma velocity_bound:
  fixes x v :: real
  shows "abs v \<le> 6 / 49 * max (abs (5 * x + v)) (abs (x + 10 * v))"
proof -
  define p q where "p = 5 * x + v" and "q = x + 10 * v"
  define M where "M = max (abs p) (abs q)"
  have pq: "- M \<le> p" "p \<le> M" "- M \<le> q" "q \<le> M"
    unfolding M_def by linarith+
  have "abs v = abs ((5 * q - p) / 49)"
    by (simp add: p_def q_def)
  also have "\<dots> \<le> 6 / 49 * M"
    unfolding abs_le_iff using pq by (simp add: field_simps)
  finally show ?thesis
    unfolding M_def p_def q_def .
qed

lemma perturbed_norm:
  fixes x v a b E :: real
  assumes "abs a \<le> E" and "abs b \<le> E"
  shows "max (abs (5 * (x + a) + (v + b))) (abs ((x + a) + 10 * (v + b)))
         \<le> max (abs (5 * x + v)) (abs (x + 10 * v)) + 11 * E"
proof -
  define M where "M = max (abs (5 * x + v)) (abs (x + 10 * v))"
  have pq: "- M \<le> 5 * x + v" "5 * x + v \<le> M" "- M \<le> x + 10 * v" "x + 10 * v \<le> M"
    unfolding M_def by linarith+
  have ab: "- E \<le> a" "a \<le> E" "- E \<le> b" "b \<le> E"
    using assms by linarith+
  have "abs (5 * (x + a) + (v + b)) \<le> M + 11 * E"
    unfolding abs_le_iff using pq ab by (simp add: algebra_simps)
  moreover have "abs ((x + a) + 10 * (v + b)) \<le> M + 11 * E"
    unfolding abs_le_iff using pq ab by (simp add: algebra_simps)
  ultimately show ?thesis
    unfolding M_def by simp
qed

text \<open>
  One tick in doubles is the exact tick up to a rounding error that is small against the
  sizes of displacement, velocity and target.
\<close>

lemma double_step_error:
  assumes c: "\<bar>c\<bar> \<le> 2 ^ 1000" and t: "\<bar>t\<bar> \<le> 2 ^ 1000" and v: "\<bar>v\<bar> \<le> 2 ^ 1000"
  shows "\<exists>c' v'. calculateSpring_double constructor_spring_double c t v dt
             = Some \<lparr>position = c', spring_result.velocity = v'\<rparr>
           \<and> \<bar>v' - (15 / 100 * v - 8 / 100 * (c - t))\<bar>
               \<le> (\<bar>c - t\<bar> + \<bar>v\<bar> + \<bar>t\<bar>) / 2 ^ 46 + 1 / 2 ^ 1070
           \<and> \<bar>(c' - t) - ((c - t) + (15 / 100 * v - 8 / 100 * (c - t)))\<bar>
               \<le> (\<bar>c - t\<bar> + \<bar>v\<bar> + \<bar>t\<bar>) / 2 ^ 46 + 1 / 2 ^ 1070"
proof -
  define k :: real where "k = 5764607523034235 / 2 ^ 56"
  define d :: real where "d = 7656119366529843 / 2 ^ 53"
  define \<eta> :: real where "\<eta> = 1 / 2 ^ 1075"
  define P :: real where "P = 2 ^ 1023"
  define X V T where "X = \<bar>c - t\<bar>" and "V = \<bar>v\<bar>" and "T = \<bar>t\<bar>"
  have K: "spring.stiffness constructor_spring_double = k"
    "spring.damping constructor_spring_double = d" "spring.mass constructor_spring_double = 1"
    by (simp_all add: constructor_spring_double_def k_def d_def)
  have \<eta>: "0 < \<eta>" "\<eta> \<le> 1" "2 ^ 5 * \<eta> \<le> 1 / 2 ^ 1070"
    by (simp_all add: \<eta>_def)
  have XVT0: "0 \<le> X" "0 \<le> V" "0 \<le> T"
    by (simp_all add: X_def V_def T_def)
  define Q :: real where "Q = 2 ^ 1000"
  have big: "64 * (4 * Q) + 64 \<le> P"
    by (simp add: Q_def P_def)
  have Q: "\<bar>c\<bar> \<le> Q" "\<bar>t\<bar> \<le> Q" "\<bar>v\<bar> \<le> Q"
    using c t v by (simp_all add: Q_def)
  have "X \<le> 2 * Q" using Q(1,2) unfolding X_def by linarith
  moreover have "V \<le> Q" "T \<le> Q" using Q by (simp_all add: V_def T_def)
  ultimately have XVT1: "64 * X + 64 * V + 64 * T + 64 \<le> P"
    using big by linarith
  have P: "P = 2 ^ 1023" by (simp add: P_def)
  note XVT = XVT0 XVT1
  have kd: "0 \<le> k" "k \<le> 1 / 2" "0 \<le> d" "d \<le> 1" by (simp_all add: k_def d_def)

  have "\<bar>c - t\<bar> \<le> X" by (simp add: X_def)
  moreover have "X \<le> 2 ^ 1023" using XVT unfolding P [symmetric] by linarith
  ultimately obtain disp where s1: "fl (c - t) = Some disp"
    and e1: "\<bar>disp - (c - t)\<bar> \<le> X / 2 ^ 53 + \<eta>"
    and m1: "\<bar>disp\<bar> \<le> 2 * X + \<eta>"
    unfolding \<eta>_def by (rule fl_step)

  have "\<bar>- k * disp\<bar> = k * \<bar>disp\<bar>" using kd by (simp add: abs_mult)
  also have "\<dots> \<le> 1 * \<bar>disp\<bar>" using kd by (intro mult_right_mono) simp_all
  finally have "\<bar>- k * disp\<bar> \<le> 2 * X + \<eta>" using m1 by simp
  moreover have "2 * X + \<eta> \<le> 2 ^ 1023" using XVT \<eta> unfolding P [symmetric] by linarith
  ultimately obtain sf where s2: "fl (- k * disp) = Some sf"
    and e2: "\<bar>sf - (- k * disp)\<bar> \<le> (2 * X + \<eta>) / 2 ^ 53 + \<eta>"
    and m2': "\<bar>sf\<bar> \<le> 2 * (2 * X + \<eta>) + \<eta>"
    unfolding \<eta>_def by (rule fl_step)

  have "\<bar>- d * v\<bar> = d * \<bar>v\<bar>" using kd by (simp add: abs_mult)
  also have "\<dots> \<le> 1 * \<bar>v\<bar>" using kd by (intro mult_right_mono) simp_all
  finally have "\<bar>- d * v\<bar> \<le> V" by (simp add: V_def)
  moreover have "V \<le> 2 ^ 1023" using XVT unfolding P [symmetric] by linarith
  ultimately obtain df where s3: "fl (- d * v) = Some df"
    and e3: "\<bar>df - (- d * v)\<bar> \<le> V / 2 ^ 53 + \<eta>"
    and m3: "\<bar>df\<bar> \<le> 2 * V + \<eta>"
    unfolding \<eta>_def by (rule fl_step)
  have m2: "\<bar>sf\<bar> \<le> 4 * X + 3 * \<eta>"
    using m2' by simp

  have z4: "\<bar>sf + df\<bar> \<le> 4 * X + 2 * V + 4 * \<eta>"
    using m2 m3 by linarith
  moreover have "4 * X + 2 * V + 4 * \<eta> \<le> 2 ^ 1023"
    using XVT \<eta> unfolding P [symmetric] by linarith
  ultimately obtain force where s4: "fl (sf + df) = Some force"
    and e4: "\<bar>force - (sf + df)\<bar> \<le> (4 * X + 2 * V + 4 * \<eta>) / 2 ^ 53 + \<eta>"
    and m4': "\<bar>force\<bar> \<le> 2 * (4 * X + 2 * V + 4 * \<eta>) + \<eta>"
    unfolding \<eta>_def by (rule fl_step)
  have m4: "\<bar>force\<bar> \<le> 8 * X + 4 * V + 9 * \<eta>"
    using m4' by simp

  have z5: "\<bar>force / 1\<bar> \<le> 8 * X + 4 * V + 9 * \<eta>"
    using m4 by simp
  moreover have "8 * X + 4 * V + 9 * \<eta> \<le> 2 ^ 1023"
    using XVT \<eta> unfolding P [symmetric] by linarith
  ultimately obtain acc where s5: "fl (force / 1) = Some acc"
    and e5: "\<bar>acc - force / 1\<bar> \<le> (8 * X + 4 * V + 9 * \<eta>) / 2 ^ 53 + \<eta>"
    and m5': "\<bar>acc\<bar> \<le> 2 * (8 * X + 4 * V + 9 * \<eta>) + \<eta>"
    unfolding \<eta>_def by (rule fl_step)
  have m5: "\<bar>acc\<bar> \<le> 16 * X + 8 * V + 19 * \<eta>"
    using m5' by simp

  have z6: "\<bar>v + acc\<bar> \<le> 16 * X + 9 * V + 19 * \<eta>"
    using m5 unfolding V_def by linarith
  moreover have "16 * X + 9 * V + 19 * \<eta> \<le> 2 ^ 1023"
    using XVT \<eta> unfolding P [symmetric] by linarith
  ultimately obtain v' where s6: "fl (v + acc) = Some v'"
    and e6: "\<bar>v' - (v + acc)\<bar> \<le> (16 * X + 9 * V + 19 * \<eta>) / 2 ^ 53 + \<eta>"
    and m6': "\<bar>v'\<bar> \<le> 2 * (16 * X + 9 * V + 19 * \<eta>) + \<eta>"
    unfolding \<eta>_def by (rule fl_step)
  have m6: "\<bar>v'\<bar> \<le> 32 * X + 18 * V + 39 * \<eta>"
    using m6' by simp

  have "\<bar>c\<bar> \<le> X + T"
    unfolding X_def T_def by linarith
  with m6 have z7: "\<bar>c + v'\<bar> \<le> T + 33 * X + 18 * V + 39 * \<eta>"
    by linarith
  moreover have "T + 33 * X + 18 * V + 39 * \<eta> \<le> 2 ^ 1023"
    using XVT \<eta> unfolding P [symmetric] by linarith
  ultimately obtain c' where s7: "fl (c + v') = Some c'"
    and e7: "\<bar>c' - (c + v')\<bar> \<le> (T + 33 * X + 18 * V + 39 * \<eta>) / 2 ^ 53 + \<eta>"
    unfolding \<eta>_def by (rule fl_step)

  have x: "- X \<le> c - t" "c - t \<le> X" and vv: "- V \<le> v" "v \<le> V"
    unfolding X_def V_def by linarith+
  have g1: "\<bar>v' - (15 / 100 * v - 8 / 100 * (c - t))\<bar> \<le> (X + V + T) / 2 ^ 46 + 32 * \<eta>"
    using e1 e2 e3 e4 e5 e6 x vv XVT \<eta> unfolding k_def d_def
    by (simp add: abs_le_iff; argo)
  have g2: "\<bar>(c' - t) - ((c - t) + (15 / 100 * v - 8 / 100 * (c - t)))\<bar>
      \<le> (X + V + T) / 2 ^ 46 + 32 * \<eta>"
    using e1 e2 e3 e4 e5 e6 e7 x vv XVT \<eta> unfolding k_def d_def
    by (simp add: abs_le_iff; argo)
  have s2': "fl (- spring.stiffness constructor_spring_double * disp) = Some sf"
    unfolding K by (rule s2)
  have s3': "fl (- spring.damping constructor_spring_double * v) = Some df"
    unfolding K by (rule s3)
  have m: "spring.mass constructor_spring_double \<noteq> 0"
    unfolding K by simp
  have s5': "fl (force / spring.mass constructor_spring_double) = Some acc"
    unfolding K by (rule s5)
  have "calculateSpring_double constructor_spring_double c t v dt
      = Some \<lparr>position = c', spring_result.velocity = v'\<rparr>"
    by (rule calculateSpring_double_Some [OF s1 s2' s3' s4 m s5' s6 s7])
  moreover have w: "(X + V + T) / 2 ^ 46 + 32 * \<eta> \<le> (X + V + T) / 2 ^ 46 + 1 / 2 ^ 1070"
    using \<eta>(3) by simp
  moreover note order_trans [OF g1 w, unfolded X_def V_def T_def]
    order_trans [OF g2 w, unfolded X_def V_def T_def]
  ultimately show ?thesis by blast
qed

lemma double_norm_step:
  assumes c: "\<bar>currentY st\<bar> \<le> 2 ^ 1000" and t: "\<bar>targetY st\<bar> \<le> 2 ^ 1000"
    and v: "\<bar>velocity st\<bar> \<le> 2 ^ 1000"
  shows "\<exists>st'. applySpring_double constructor_spring_double st = Some st'
           \<and> targetY st' = targetY st \<and> speed st' = speed st
           \<and> settle_norm st' \<le> 181 / 200 * settle_norm st
                 + (11 * \<bar>targetY st\<bar> / 2 ^ 46 + 11 / 2 ^ 1070)"
proof -
  define x where "x = currentY st - targetY st"
  define N where "N = settle_norm st"
  define E where "E = (\<bar>x\<bar> + \<bar>velocity st\<bar> + \<bar>targetY st\<bar>) / 2 ^ 46 + 1 / 2 ^ 1070"
  from double_step_error [OF c t v, of None] obtain c' v' where
    s: "calculateSpring_double constructor_spring_double (currentY st) (targetY st) (velocity st) None
          = Some \<lparr>position = c', spring_result.velocity = v'\<rparr>"
    and ev: "\<bar>v' - (15 / 100 * velocity st - 8 / 100 * x)\<bar> \<le> E"
    and ex: "\<bar>(c' - targetY st) - (x + (15 / 100 * velocity st - 8 / 100 * x))\<bar> \<le> E"
    unfolding x_def E_def by blast
  define st' where "st' = st\<lparr>currentY := c', velocity := v'\<rparr>"
  have a: "applySpring_double constructor_spring_double st = Some st'"
    by (simp add: applySpring_double_def s st'_def)
  define xs vs where "xs = x + (15 / 100 * velocity st - 8 / 100 * x)"
    and "vs = 15 / 100 * velocity st - 8 / 100 * x"
  have n1: "settle_norm st'
      = max (abs (5 * (xs + (c' - targetY st - xs)) + (vs + (v' - vs))))
            (abs ((xs + (c' - targetY st - xs)) + 10 * (vs + (v' - vs))))"
    by (simp add: settle_norm_def st'_def)
  have ex': "\<bar>c' - targetY st - xs\<bar> \<le> E" using ex by (simp add: xs_def)
  have ev': "\<bar>v' - vs\<bar> \<le> E" using ev by (simp add: vs_def)
  have "settle_norm st' \<le> max (abs (5 * xs + vs)) (abs (xs + 10 * vs)) + 11 * E"
    unfolding n1 by (rule perturbed_norm [OF ex' ev'])
  also have "max (abs (5 * xs + vs)) (abs (xs + 10 * vs)) \<le> 1809 / 2000 * N"
    unfolding xs_def vs_def N_def settle_norm_def x_def by (rule contraction_sharp)
  finally have n2: "settle_norm st' \<le> 1809 / 2000 * N + 11 * E" by simp
  have xN: "\<bar>x\<bar> \<le> 11 / 49 * N"
    unfolding N_def settle_norm_def x_def by (rule displacement_bound)
  have vN: "\<bar>velocity st\<bar> \<le> 6 / 49 * N"
    unfolding N_def settle_norm_def by (rule velocity_bound)
  have N0: "0 \<le> N" unfolding N_def settle_norm_def by simp
  have sum: "\<bar>x\<bar> + \<bar>velocity st\<bar> + \<bar>targetY st\<bar> \<le> N + \<bar>targetY st\<bar>"
    using xN vN N0 by linarith
  have "11 * E \<le> 11 * ((N + \<bar>targetY st\<bar>) / 2 ^ 46 + 1 / 2 ^ 1070)"
    unfolding E_def
    by (intro mult_left_mono add_right_mono divide_right_mono sum) simp_all
  also have "\<dots> = 11 / 2 ^ 46 * N + (11 * \<bar>targetY st\<bar> / 2 ^ 46 + 11 / 2 ^ 1070)"
    by (simp add: field_simps)
  also have "\<dots> \<le> 1 / 2000 * N + (11 * \<bar>targetY st\<bar> / 2 ^ 46 + 11 / 2 ^ 1070)"
    using N0 by (intro add_right_mono mult_right_mono) simp_all
  finally have "settle_norm st' \<le> 181 / 200 * N + (11 * \<bar>targetY st\<bar> / 2 ^ 46 + 11 / 2 ^ 1070)"
    using n2 by linarith
  moreover have "targetY st' = targetY st" "speed st' = speed st"
    by (simp_all add: st'_def)
  ultimately show ?thesis using a unfolding N_def by blast
qed

lemma double_ticks_norm:
  assumes t: "\<bar>targetY st\<bar> \<le> 2 ^ 900" and N: "settle_norm st \<le> 2 ^ 905"
  shows "\<exists>st'. ticks_double n constructor_spring_double st = Some st'
           \<and> targetY st' = targetY st \<and> speed st' = speed st
           \<and> settle_norm st' \<le> (181 / 200) ^ n * settle_norm st
                 + 200 / 19 * (1 - (181 / 200) ^ n)
                     * (11 * \<bar>targetY st\<bar> / 2 ^ 46 + 11 / 2 ^ 1070)"
  using assms
proof (induction n arbitrary: st)
  case 0
  then show ?case by simp
next
  case (Suc n)
  define \<tau> where "\<tau> = 11 * \<bar>targetY st\<bar> / 2 ^ 46 + 11 / 2 ^ 1070"
  define B :: real where "B = 2 ^ 905"
  define Q :: real where "Q = 2 ^ 1000"
  define p :: real where "p = (181 / 200) ^ n"
  have p: "0 \<le> p" by (simp add: p_def)
  have BQ: "0 \<le> B" "2 * B \<le> Q" "2 ^ 900 \<le> B" by (simp_all add: B_def Q_def)
  have T: "\<bar>targetY st\<bar> \<le> B" using Suc.prems(1) BQ(3) by linarith
  have NB: "settle_norm st \<le> B" using Suc.prems(2) by (simp add: B_def)
  have N0: "0 \<le> settle_norm st" by (simp add: settle_norm_def)
  have \<tau>0: "0 \<le> \<tau>" by (simp add: \<tau>_def)
  have "\<tau> \<le> 11 * 2 ^ 900 / 2 ^ 46 + 11 / 2 ^ 1070"
    unfolding \<tau>_def using Suc.prems(1)
    by (intro add_right_mono divide_right_mono mult_left_mono) simp_all
  also have "\<dots> \<le> 19 / 200 * B" by (simp add: B_def)
  finally have \<tau>B: "\<tau> \<le> 19 / 200 * B" .
  have x: "\<bar>currentY st - targetY st\<bar> \<le> 11 / 49 * settle_norm st"
    unfolding settle_norm_def by (rule displacement_bound)
  have v: "\<bar>velocity st\<bar> \<le> 6 / 49 * settle_norm st"
    unfolding settle_norm_def by (rule velocity_bound)
  have c: "\<bar>currentY st\<bar> \<le> Q"
    using x T NB N0 BQ by linarith
  have v': "\<bar>velocity st\<bar> \<le> Q"
    using v NB N0 BQ by linarith
  have t': "\<bar>targetY st\<bar> \<le> Q"
    using T BQ by linarith
  from double_norm_step [OF c [unfolded Q_def] t' [unfolded Q_def] v' [unfolded Q_def]]
  obtain s1 where s1: "applySpring_double constructor_spring_double st = Some s1"
    and t1: "targetY s1 = targetY st" and sp1: "speed s1 = speed st"
    and n1: "settle_norm s1 \<le> 181 / 200 * settle_norm st + \<tau>"
    unfolding \<tau>_def by blast
  have "settle_norm s1 \<le> B" using n1 NB \<tau>B by linarith
  then have N1: "settle_norm s1 \<le> 2 ^ 905" by (simp add: B_def)
  have T1: "\<bar>targetY s1\<bar> \<le> 2 ^ 900" using Suc.prems(1) by (simp add: t1)
  from Suc.IH [OF T1 N1] obtain st' where
    r: "ticks_double n constructor_spring_double s1 = Some st'"
    and t2: "targetY st' = targetY s1" and sp2: "speed st' = speed s1"
    and n2: "settle_norm st' \<le> p * settle_norm s1 + 200 / 19 * (1 - p) * \<tau>"
    unfolding \<tau>_def p_def t1 by blast
  have "p * settle_norm s1 \<le> p * (181 / 200 * settle_norm st + \<tau>)"
    using n1 p by (rule mult_left_mono)
  with n2 have "settle_norm st' \<le> p * (181 / 200 * settle_norm st + \<tau>) + 200 / 19 * (1 - p) * \<tau>"
    by linarith
  also have "\<dots> = (181 / 200 * p) * settle_norm st + 200 / 19 * (1 - 181 / 200 * p) * \<tau>"
    by (simp add: field_simps)
  finally have "settle_norm st' \<le> (181 / 200) ^ Suc n * settle_norm st
      + 200 / 19 * (1 - (181 / 200) ^ Suc n) * \<tau>"
    by (simp add: p_def)
  with r s1 t1 t2 sp1 sp2 show ?case
    unfolding \<tau>_def by simp
qed

lemma settles_in_doubles_bound:
  assumes c: "\<bar>currentY st\<bar> \<le> 2 ^ 900" and t: "\<bar>targetY st\<bar> \<le> 2 ^ 900"
    and v: "\<bar>velocity st\<bar> \<le> 2 ^ 900"
  shows "\<exists>st'. ticks_double n constructor_spring_double st = Some st'
           \<and> targetY st' = targetY st
           \<and> \<bar>currentY st' - targetY st\<bar>
               \<le> 3 * (\<bar>currentY st - targetY st\<bar> + \<bar>velocity st\<bar>) * (181 / 200) ^ n
                 + \<bar>targetY st\<bar> / 2 ^ 40 + 1 / 2 ^ 1060"
proof -
  define D where "D = \<bar>currentY st - targetY st\<bar> + \<bar>velocity st\<bar>"
  define \<tau> where "\<tau> = 11 * \<bar>targetY st\<bar> / 2 ^ 46 + 11 / 2 ^ 1070"
  define p :: real where "p = (181 / 200) ^ n"
  define Q :: real where "Q = 2 ^ 900"
  have p: "0 \<le> p" "p \<le> 1" by (simp_all add: p_def power_le_one)
  have D0: "0 \<le> D" by (simp add: D_def)
  have \<tau>0: "0 \<le> \<tau>" by (simp add: \<tau>_def)
  have "settle_norm st \<le> 5 * \<bar>currentY st - targetY st\<bar> + 10 * \<bar>velocity st\<bar>"
    unfolding settle_norm_def by (rule start_bound)
  moreover have "5 * \<bar>currentY st - targetY st\<bar> + 10 * \<bar>velocity st\<bar> \<le> 10 * D"
    by (simp add: D_def)
  ultimately have N10: "settle_norm st \<le> 10 * D" by (rule order_trans)
  have "D \<le> 3 * Q" using c t v unfolding D_def Q_def by linarith
  with N10 have "settle_norm st \<le> 30 * Q" by linarith
  also have "\<dots> \<le> 2 ^ 905" by (simp add: Q_def)
  finally have N: "settle_norm st \<le> 2 ^ 905" .
  from double_ticks_norm [OF t N, of n] obtain st' where
    r: "ticks_double n constructor_spring_double st = Some st'"
    and t': "targetY st' = targetY st"
    and n: "settle_norm st' \<le> p * settle_norm st + 200 / 19 * (1 - p) * \<tau>"
    unfolding \<tau>_def p_def by blast
  have "p * settle_norm st \<le> p * (10 * D)"
    using N10 p(1) by (rule mult_left_mono)
  then have A: "p * settle_norm st \<le> 10 * (D * p)"
    by (simp add: mult.commute mult.left_commute)
  have "200 / 19 * (1 - p) * \<tau> \<le> 200 / 19 * 1 * \<tau>"
    using p \<tau>0 by (intro mult_right_mono mult_left_mono) simp_all
  then have B: "200 / 19 * (1 - p) * \<tau> \<le> 200 / 19 * \<tau>"
    by simp
  from n A B have n': "settle_norm st' \<le> 10 * (D * p) + 200 / 19 * \<tau>"
    by (rule order_trans [OF _ add_mono])
  have "\<bar>currentY st' - targetY st'\<bar> \<le> 11 / 49 * settle_norm st'"
    unfolding settle_norm_def by (rule displacement_bound)
  also have "\<dots> \<le> 11 / 49 * (10 * (D * p) + 200 / 19 * \<tau>)"
    using n' by (intro mult_left_mono) simp_all
  also have "\<dots> \<le> 3 * (D * p) + 3 * \<tau>"
  proof -
    define a where "a = D * p"
    have "0 \<le> a" unfolding a_def using D0 p(1) by (rule mult_nonneg_nonneg)
    with \<tau>0 have "11 / 49 * (10 * a + 200 / 19 * \<tau>) \<le> 3 * a + 3 * \<tau>"
      by argo
    then show ?thesis unfolding a_def .
  qed
  also have "3 * \<tau> \<le> \<bar>targetY st\<bar> / 2 ^ 40 + 1 / 2 ^ 1060"
    unfolding \<tau>_def by (simp add: field_simps)
  finally have "\<bar>currentY st' - targetY st\<bar>
      \<le> 3 * D * p + \<bar>targetY st\<bar> / 2 ^ 40 + 1 / 2 ^ 1060"
    unfolding t' by (simp add: algebra_simps)
  with r t' show ?thesis
    unfolding D_def p_def by blast
qed

lemma pow60: "(181 / 200 :: real) ^ 60 \<le> 1 / 390"
  by (simp add: power_divide)

lemma pow300: "(181 / 200 :: real) ^ 300 \<le> 1 / (9 * 10 ^ 12)"
proof -
  have "(181 / 200 :: real) ^ 300 = ((181 / 200) ^ 60) ^ 5"
    by (simp add: power_mult [symmetric])
  also have "\<dots> \<le> (1 / 390) ^ 5"
    by (rule power_mono [OF pow60]) simp
  also have "\<dots> \<le> 1 / (9 * 10 ^ 12)"
    by (simp add: power_divide)
  finally show ?thesis .
qed

text \<open>
  C4 (as the code behaves). Under the constructor's constants, from any state of a layer
  with current, target and velocity of magnitude at most \<open>2^900\<close> and the target then
  held, every number \<open>n\<close> of ticks stores finite numbers, and the distance of the
  position to the target is at most
  \<open>3 * (|current - target| + |velocity|) * 0.905 ^ n + |target| / 2^40 + 2^-1060\<close>:
  the starting size decays geometrically and what remains is rounding. So the position
  stays bounded for all time, is within one percent of the starting size (plus rounding)
  from 60 ticks on (a step from 0 to 100 at rest is then within 1 of 100) and within
  \<open>10^-12\<close> of it (plus rounding) from 300 ticks on.
\<close>

theorem settles_within_rounding:
  assumes "\<bar>currentY st\<bar> \<le> 2 ^ 900" and "\<bar>targetY st\<bar> \<le> 2 ^ 900"
    and "\<bar>velocity st\<bar> \<le> 2 ^ 900"
  shows "\<exists>st'. ticks_double n constructor_spring_double st = Some st' \<and> targetY st' = targetY st \<and>
     \<bar>currentY st' - targetY st\<bar>
       \<le> 3 * (\<bar>currentY st - targetY st\<bar> + \<bar>velocity st\<bar>) * (181 / 200) ^ n
         + \<bar>targetY st\<bar> / 2 ^ 40 + 1 / 2 ^ 1060 \<and>
     \<bar>currentY st' - targetY st\<bar>
       \<le> 3 * (\<bar>currentY st - targetY st\<bar> + \<bar>velocity st\<bar>)
         + \<bar>targetY st\<bar> / 2 ^ 40 + 1 / 2 ^ 1060 \<and>
     (60 \<le> n \<longrightarrow>
        \<bar>currentY st' - targetY st\<bar>
          \<le> (\<bar>currentY st - targetY st\<bar> + \<bar>velocity st\<bar>) / 130
            + \<bar>targetY st\<bar> / 2 ^ 40 + 1 / 2 ^ 1060) \<and>
     (300 \<le> n \<longrightarrow>
        \<bar>currentY st' - targetY st\<bar>
          \<le> (\<bar>currentY st - targetY st\<bar> + \<bar>velocity st\<bar>) / (3 * 10 ^ 12)
            + \<bar>targetY st\<bar> / 2 ^ 40 + 1 / 2 ^ 1060)"
proof -
  define D where "D = \<bar>currentY st - targetY st\<bar> + \<bar>velocity st\<bar>"
  define R where "R = \<bar>targetY st\<bar> / 2 ^ 40 + 1 / 2 ^ 1060"
  define e where "e s = \<bar>currentY s - targetY st\<bar>" for s :: layer_state
  have D0: "0 \<le> D" by (simp add: D_def)
  from settles_in_doubles_bound [OF assms, of n] obtain st' where
    st': "ticks_double n constructor_spring_double st = Some st'"
    and t': "targetY st' = targetY st"
    and bound: "e st' \<le> 3 * D * (181 / 200) ^ n + R"
    unfolding D_def R_def e_def by (auto simp: add.assoc)
  have r1: "(181 / 200 :: real) ^ n \<le> 1" by (simp add: power_le_one)
  have late: "e st' \<le> 3 * D * q + R"
    if "N \<le> n" and "(181 / 200 :: real) ^ N \<le> q" for N q
  proof -
    have "(181 / 200 :: real) ^ n \<le> (181 / 200) ^ N"
      by (rule power_decreasing [OF that(1)]) simp_all
    from this that(2) have "(181 / 200 :: real) ^ n \<le> q" by (rule order_trans)
    then have "3 * D * (181 / 200) ^ n \<le> 3 * D * q"
      by (intro mult_left_mono) (simp_all add: D0)
    with bound show ?thesis by simp
  qed
  have bounded: "e st' \<le> 3 * D + R"
  proof -
    have "3 * D * (181 / 200) ^ n \<le> 3 * D * 1"
      by (intro mult_left_mono r1) (simp add: D0)
    with bound show ?thesis by simp
  qed
  have p60: "e st' \<le> D / 130 + R" if "60 \<le> n"
    using late [OF that pow60] by simp
  have p300: "e st' \<le> D / (3 * 10 ^ 12) + R" if "300 \<le> n"
    using late [OF that pow300] by simp
  show ?thesis
    using st' t' bound bounded p60 p300
    unfolding D_def R_def e_def by (auto simp: add.assoc)
qed

theorem settles_within_rounding_witness:
  "\<bar>currentY ((newLayerState (1 / 2))\<lparr>targetY := 100\<rparr>)\<bar> \<le> 2 ^ 900 \<and>
   \<bar>targetY ((newLayerState (1 / 2))\<lparr>targetY := 100\<rparr>)\<bar> \<le> 2 ^ 900 \<and>
   \<bar>velocity ((newLayerState (1 / 2))\<lparr>targetY := 100\<rparr>)\<bar> \<le> 2 ^ 900 \<and>
   (\<exists>st'. ticks_double 300 constructor_spring_double ((newLayerState (1 / 2))\<lparr>targetY := 100\<rparr>)
            = Some st' \<and> targetY st' = 100 \<and>
          \<bar>currentY st' - 100\<bar> \<le> 1 \<and> \<bar>currentY st' - 100\<bar> \<le> 1 / 10 ^ 9)"
proof -
  have h: "\<bar>currentY ((newLayerState (1 / 2))\<lparr>targetY := 100\<rparr>)\<bar> \<le> 2 ^ 900"
    "\<bar>targetY ((newLayerState (1 / 2))\<lparr>targetY := 100\<rparr>)\<bar> \<le> 2 ^ 900"
    "\<bar>velocity ((newLayerState (1 / 2))\<lparr>targetY := 100\<rparr>)\<bar> \<le> 2 ^ 900"
    by (simp_all add: newLayerState_def)
  from settles_within_rounding [OF h, of 300] obtain st' where
    "ticks_double 300 constructor_spring_double ((newLayerState (1 / 2))\<lparr>targetY := 100\<rparr>) = Some st'"
    and "targetY st' = 100"
    and b60: "\<bar>currentY st' - 100\<bar> \<le> 100 / 130 + 100 / 2 ^ 40 + 1 / 2 ^ 1060"
    and b300: "\<bar>currentY st' - 100\<bar> \<le> 100 / (3 * 10 ^ 12) + 100 / 2 ^ 40 + 1 / 2 ^ 1060"
    by (auto simp: newLayerState_def)
  moreover have "(100 / 130 + 100 / 2 ^ 40 + 1 / 2 ^ 1060 :: real) \<le> 1"
    by simp
  with b60 have "\<bar>currentY st' - 100\<bar> \<le> 1" by (rule order_trans)
  moreover have "(100 / (3 * 10 ^ 12) + 100 / 2 ^ 40 + 1 / 2 ^ 1060 :: real) \<le> 1 / 10 ^ 9"
    by simp
  with b300 have "\<bar>currentY st' - 100\<bar> \<le> 1 / 10 ^ 9" by (rule order_trans)
  ultimately show ?thesis
    using h by (intro conjI exI [of _ st']) simp_all
qed

text \<open>A layer that rounding keeps from moving.\<close>

lemma stall_step:
  assumes "0 \<le> v" and "v \<le> 1 / 4"
  shows "\<exists>v'. calculateSpring_double constructor_spring_double (10 ^ 16) (10 ^ 16 + 2) v None
             = Some \<lparr>position = 10 ^ 16, spring_result.velocity = v'\<rparr>
           \<and> 0 \<le> v' \<and> v' \<le> 1 / 4"
proof -
  define k :: real where "k = 5764607523034235 / 2 ^ 56"
  define d :: real where "d = 7656119366529843 / 2 ^ 53"
  have K: "spring.stiffness constructor_spring_double = k"
    "spring.damping constructor_spring_double = d" "spring.mass constructor_spring_double = 1"
    by (simp_all add: constructor_spring_double_def k_def d_def)
  have s1: "fl (10 ^ 16 - (10 ^ 16 + 2)) = Some (- 2)"
    using fl_minus_two by simp
  have s2: "fl (- k * (- 2)) = Some (2 * k)"
    using fl_spring_force by (simp add: k_def)
  have "\<bar>- d * v\<bar> \<le> 1"
    using assms by (simp add: d_def abs_mult)
  from fl_unit [OF this] obtain df where
    s3: "fl (- d * v) = Some df" and e3: "\<bar>df - (- d * v)\<bar> \<le> 1 / 2 ^ 52"
    by blast
  have "\<bar>2 * k + df\<bar> \<le> 1"
    using e3 assms unfolding k_def d_def by (simp add: abs_le_iff; argo)
  from fl_unit [OF this] obtain force where
    s4: "fl (2 * k + df) = Some force" and e4: "\<bar>force - (2 * k + df)\<bar> \<le> 1 / 2 ^ 52"
    by blast
  have "\<bar>force / 1\<bar> \<le> 1"
    using e3 e4 assms unfolding k_def d_def by (simp add: abs_le_iff; argo)
  from fl_unit [OF this] obtain acc where
    s5: "fl (force / 1) = Some acc" and e5: "\<bar>acc - force / 1\<bar> \<le> 1 / 2 ^ 52"
    by blast
  have pos: "0 \<le> v + acc"
    using e3 e4 e5 assms unfolding k_def d_def by (simp add: abs_le_iff; argo)
  have small: "\<bar>v + acc\<bar> \<le> 1"
    using e3 e4 e5 assms unfolding k_def d_def by (simp add: abs_le_iff; argo)
  from fl_unit [OF small] obtain v' where
    s6: "fl (v + acc) = Some v'" and e6: "\<bar>v' - (v + acc)\<bar> \<le> 1 / 2 ^ 52"
    by blast
  have v0: "0 \<le> v'" by (rule fl_nonneg [OF s6 pos])
  have v1: "v' \<le> 1 / 4"
    using e3 e4 e5 e6 assms unfolding k_def d_def by (simp add: abs_le_iff; argo)
  have s7: "fl (10 ^ 16 + v') = Some (10 ^ 16)"
    by (rule fl_stall [OF v0 v1])
  have s2': "fl (- spring.stiffness constructor_spring_double * (- 2)) = Some (2 * k)"
    unfolding K by (rule s2)
  have s3': "fl (- spring.damping constructor_spring_double * v) = Some df"
    unfolding K by (rule s3)
  have m: "spring.mass constructor_spring_double \<noteq> 0"
    unfolding K by simp
  have s5': "fl (force / spring.mass constructor_spring_double) = Some acc"
    unfolding K by (rule s5)
  have "calculateSpring_double constructor_spring_double (10 ^ 16) (10 ^ 16 + 2) v None
      = Some \<lparr>position = 10 ^ 16, spring_result.velocity = v'\<rparr>"
    by (rule calculateSpring_double_Some [OF s1 s2' s3' s4 m s5' s6 s7])
  with v0 v1 show ?thesis by blast
qed

lemma stall_ticks:
  assumes "0 \<le> v" and "v \<le> 1 / 4"
  shows "\<exists>v'. ticks_double n constructor_spring_double
               \<lparr>currentY = 10 ^ 16, targetY = 10 ^ 16 + 2, velocity = v, speed = s\<rparr>
             = Some \<lparr>currentY = 10 ^ 16, targetY = 10 ^ 16 + 2, velocity = v', speed = s\<rparr>
           \<and> 0 \<le> v' \<and> v' \<le> 1 / 4"
  using assms
proof (induction n arbitrary: v)
  case 0
  then show ?case by simp
next
  case (Suc n)
  from stall_step [OF Suc.prems] obtain v1 where
    c: "calculateSpring_double constructor_spring_double (10 ^ 16) (10 ^ 16 + 2) v None
          = Some \<lparr>position = 10 ^ 16, spring_result.velocity = v1\<rparr>"
    and v1: "0 \<le> v1" "v1 \<le> 1 / 4"
    by blast
  have a: "applySpring_double constructor_spring_double
             \<lparr>currentY = 10 ^ 16, targetY = 10 ^ 16 + 2, velocity = v, speed = s\<rparr>
           = Some \<lparr>currentY = 10 ^ 16, targetY = 10 ^ 16 + 2, velocity = v1, speed = s\<rparr>"
    using c by (simp add: applySpring_double_def)
  from Suc.IH [OF v1] a show ?case
    by simp
qed

text \<open>
  The claim that the distance falls below any small \<open>epsilon\<close> fails in doubles. Around
  \<open>10^16\<close> neighbouring doubles are 2 apart: a layer at rest at \<open>10^16\<close> whose
  target is stepped to \<open>10^16 + 2\<close> (both are doubles) gets a velocity below one
  quarter, \<open>current + velocity\<close> rounds back to \<open>10^16\<close>, and after 300 ticks (as
  after any number) the position has not moved: it is still 2 away from the target.
\<close>

theorem stalled_channel_counterexample:
  "fl (10 ^ 16) = Some (10 ^ 16) \<and> fl (10 ^ 16 + 2) = Some (10 ^ 16 + 2) \<and>
   (\<exists>v. ticks_double 300 constructor_spring_double
           \<lparr>currentY = 10 ^ 16, targetY = 10 ^ 16 + 2, velocity = 0, speed = 1 / 2\<rparr>
         = Some \<lparr>currentY = 10 ^ 16, targetY = 10 ^ 16 + 2, velocity = v, speed = 1 / 2\<rparr>)"
proof -
  have a: "fl (10 ^ 16) = Some (10 ^ 16)"
    using fl_stall [of 0] by simp
  have b: "fl (10 ^ 16 + 2) = Some (10 ^ 16 + 2)"
    by (rule fl_normal_eval [where e = 53 and n = "5 * 10 ^ 15 + 1"])
       (simp_all add: round_even_def Let_def)
  from stall_ticks [of 0 300 "1 / 2"] a b show ?thesis
    by auto
qed

end
